theory Spec2Isabelle
  imports Complex_Main "HOL-Library.Stream"
begin

section \<open>The transaction simulator of transactionSim.py\<close>

text \<open>
  The simulator is a Python script: a population of cards is drawn once, then a fixed
  number of transactions is generated, each one reading and overwriting the state of one
  card and a clock shared by all cards.

  Python floats are read as real numbers (exact arithmetic), a \<open>datetime\<close> as an integer
  number of microseconds since the epoch, a \<open>timedelta\<close> as an integer number of
  microseconds. The three sources of values outside the script are explicit: the draws
  of the module \<open>random\<close> (a stream of reals, each call of \<open>random.random()\<close> taking the
  next one), the wall clock read once by \<open>datetime.now\<close>, and the operating system's
  entropy read by \<open>uuid.uuid4\<close> (a stream of identifiers).

  Two things are left out. The range of \<open>datetime\<close> (the years 1 to 9999) is not
  modelled: a clock value is any integer, and the \<open>OverflowError\<close> of a datetime or a
  timedelta out of range has no counterpart. The transmission to Kinesis is switched off
  in the script (\<open>SEND_TO_KINESIS = False\<close>) and changes neither the records nor the
  state; it is not modelled either.

  Reading doubles as reals loses the rounding of each operation. Two places where the
  rounding decides whether the script raises are treated apart. The cosine of
  \<open>radians(lat)\<close> is never zero on doubles, and the model keeps that (\<open>cos_degrees\<close>
  below). In \<open>haversine\<close> the argument of a square root can round to a value just above
  1 for two points that are almost antipodal, and \<open>math.sqrt\<close> then raises
  \<open>ValueError\<close>; in exact arithmetic the argument stays in \<open>[0, 1]\<close>, so the model has
  no such exception, and nothing below states that a run which computes distances ends
  normally.
\<close>

subsection \<open>Python primitives\<close>

datatype error = ZeroDivisionError | IndexError | TypeError

text \<open>Float division raises on a zero divisor.\<close>

definition py_div :: "real \<Rightarrow> real \<Rightarrow> error + real" where
  "py_div a b = (if b = 0 then Inl ZeroDivisionError else Inr (a / b))"

text \<open>\<open>round(x)\<close> of Python rounds to the nearest integer, a tie to the even one.\<close>

definition round_half_even :: "real \<Rightarrow> int" where
  "round_half_even x =
     (let f = \<lfloor>x\<rfloor>; d = x - of_int f
      in if d < 1 / 2 then f
         else if 1 / 2 < d then f + 1
         else if even f then f else f + 1)"

text \<open>\<open>round(x, n)\<close>: \<open>n\<close> decimal places.\<close>

definition py_round :: "real \<Rightarrow> nat \<Rightarrow> real" where
  "py_round x n = of_int (round_half_even (x * 10 ^ n)) / 10 ^ n"

text \<open>\<open>x % m\<close> on floats: the result has the sign of the divisor.\<close>

definition py_mod :: "real \<Rightarrow> real \<Rightarrow> real" where
  "py_mod x m = x - m * of_int \<lfloor>x / m\<rfloor>"

text \<open>\<open>math.radians\<close> and \<open>math.atan2\<close>.\<close>

definition radians :: "real \<Rightarrow> real" where
  "radians d = d * pi / 180"

definition atan2 :: "real \<Rightarrow> real \<Rightarrow> real" where
  "atan2 y x =
     (if 0 < x then arctan (y / x)
      else if x < 0 then (if 0 \<le> y then arctan (y / x) + pi else arctan (y / x) - pi)
      else if 0 < y then pi / 2
      else if y < 0 then - (pi / 2)
      else 0)"

text \<open>
  \<open>timedelta(seconds=s)\<close> keeps whole microseconds, rounding to the nearest one;
  \<open>total_seconds()\<close> reads a difference of two datetimes back as seconds.
\<close>

definition timedelta :: "real \<Rightarrow> int" where
  "timedelta s = round_half_even (s * 1000000)"

definition total_seconds :: "int \<Rightarrow> real" where
  "total_seconds us = of_int us / 1000000"

text \<open>
  \<open>strftime('%Y-%m-%dT%H:%M:%SZ')\<close> prints the calendar second of a datetime and drops
  its microseconds; the model keeps the number of that second.
\<close>

definition strftime :: "int \<Rightarrow> int" where
  "strftime t = t div 1000000"

subsection \<open>The random module\<close>

text \<open>
  The generator's state: the draws that \<open>random.random()\<close> will return, each in
  \<open>[0, 1)\<close>, and the spare value that \<open>random.gauss\<close> keeps between two calls.
\<close>

record rng_state =
  draws :: "real stream"
  gauss_next :: "real option"

definition valid_draws :: "real stream \<Rightarrow> bool" where
  "valid_draws s = (\<forall>n. 0 \<le> snth s n \<and> snth s n < 1)"

definition random :: "rng_state \<Rightarrow> real \<times> rng_state" where
  "random g = (shd (draws g), g\<lparr>draws := stl (draws g)\<rparr>)"

text \<open>\<open>random.uniform(a, b)\<close> is \<open>a + (b - a) * random()\<close>.\<close>

definition uniform :: "real \<Rightarrow> real \<Rightarrow> rng_state \<Rightarrow> real \<times> rng_state" where
  "uniform a b g = (let (u, g') = random g in (a + (b - a) * u, g'))"

text \<open>\<open>random.expovariate(lambd)\<close> is \<open>-log(1 - random()) / lambd\<close>.\<close>

definition expovariate :: "real \<Rightarrow> rng_state \<Rightarrow> (error + real) \<times> rng_state" where
  "expovariate lambd g = (let (u, g') = random g in (py_div (- ln (1 - u)) lambd, g'))"

text \<open>
  A uniform integer below \<open>n\<close> (\<open>random.choice\<close>, \<open>random.randint\<close>), read off one
  draw.
\<close>

definition randbelow :: "nat \<Rightarrow> rng_state \<Rightarrow> nat \<times> rng_state" where
  "randbelow n g = (let (u, g') = random g in (nat \<lfloor>u * real n\<rfloor>, g'))"

definition randint :: "int \<Rightarrow> int \<Rightarrow> rng_state \<Rightarrow> int \<times> rng_state" where
  "randint a b g = (let (k, g') = randbelow (nat (b - a + 1)) g in (a + int k, g'))"

text \<open>
  \<open>random.gauss(mu, sigma)\<close> returns the spare value when there is one, and otherwise
  takes two draws, returns one normal value and keeps the other.
\<close>

definition gauss :: "real \<Rightarrow> real \<Rightarrow> rng_state \<Rightarrow> real \<times> rng_state" where
  "gauss mu sigma g =
     (case gauss_next g of
        Some z \<Rightarrow> (mu + z * sigma, g\<lparr>gauss_next := None\<rparr>)
      | None \<Rightarrow>
          (let (u1, g1) = random g;
               x2pi = u1 * (2 * pi);
               (u2, g2) = random g1;
               g2rad = sqrt (- 2 * ln (1 - u2))
           in (mu + (cos x2pi * g2rad) * sigma, g2\<lparr>gauss_next := Some (sin x2pi * g2rad)\<rparr>)))"

subsection \<open>Configuration\<close>

record config =
  NUM_CARDS :: int
  NUM_TRANSACTIONS :: int
  FRAUD_INJECTION_PROBABILITY :: real
  COMPROMISE_CARD_PROBABILITY :: real
  AVG_TRANSACTION_DELAY_SECONDS :: real
  LOCATION_VARIATION_KM_NORMAL :: real
  LOCATION_VARIATION_KM_FRAUD :: real
  NORMAL_AMOUNT_RANGE :: "real \<times> real"
  FRAUD_AMOUNT_RANGE :: "real \<times> real"
  HIGH_VELOCITY_THRESHOLD_KMH :: real

definition default_config :: config where
  "default_config =
     \<lparr> NUM_CARDS = 50,
       NUM_TRANSACTIONS = 1000,
       FRAUD_INJECTION_PROBABILITY = 3 / 100,
       COMPROMISE_CARD_PROBABILITY = 10 / 100,
       AVG_TRANSACTION_DELAY_SECONDS = 5 / 10,
       LOCATION_VARIATION_KM_NORMAL = 50,
       LOCATION_VARIATION_KM_FRAUD = 5000,
       NORMAL_AMOUNT_RANGE = (5, 250),
       FRAUD_AMOUNT_RANGE = (100, 2000),
       HIGH_VELOCITY_THRESHOLD_KMH = 800 \<rparr>"

subsection \<open>Helper functions\<close>

text \<open>
  \<open>math.cos(math.radians(lat))\<close>. \<open>math.radians\<close> multiplies by the double nearest to
  \<open>\<pi> / 180\<close>, so a double is never sent to an odd multiple of \<open>\<pi> / 2\<close>, and the
  cosine that follows is never zero: at \<open>90.0\<close> and at \<open>-90.0\<close> it is
  \<open>6.123233995736766e-17\<close>. The real cosine does have zeros. At those, and only there,
  the model keeps the rounding of \<open>\<pi>\<close>: with \<open>math.pi = \<pi> - pi_rounding\<close> the angle is
  \<open>\<theta> - lat * pi_rounding / 180\<close>, whose cosine at a zero of \<open>cos \<theta>\<close> is
  \<open>sin \<theta> * lat * pi_rounding / 180\<close> to first order; at \<open>\<plusminus>90\<close> that is the double above.
  Everywhere else the value is the real cosine.
\<close>

definition pi_rounding :: real where
  "pi_rounding = 12246467991473532 / 10 ^ 32"

definition cos_degrees :: "real \<Rightarrow> real" where
  "cos_degrees lat =
     (if cos (radians lat) = 0 then sin (radians lat) * lat * pi_rounding / 180
      else cos (radians lat))"

text \<open>
  \<open>generate_location_around\<close>: the two radii in degrees, two uniform offsets, the
  latitude clamped, the longitude wrapped, both rounded to six places. The division by
  \<open>111.1 * cos(radians(lat))\<close> is the only place where it could raise.
\<close>

definition generate_location_around ::
  "real \<Rightarrow> real \<Rightarrow> real \<Rightarrow> rng_state \<Rightarrow> (error + real \<times> real) \<times> rng_state" where
  "generate_location_around lat lon max_distance_km g =
     (let radius_deg_lat = max_distance_km / (1111 / 10)
      in case py_div max_distance_km ((1111 / 10) * cos_degrees lat) of
           Inl e \<Rightarrow> (Inl e, g)
         | Inr radius_deg_lon \<Rightarrow>
             (let (delta_lat, g1) = uniform (- radius_deg_lat) radius_deg_lat g;
                  (delta_lon, g2) = uniform (- radius_deg_lon) radius_deg_lon g1;
                  new_lat = max (- 90) (min 90 (lat + delta_lat));
                  new_lon = py_mod (lon + delta_lon + 180) 360 - 180
              in (Inr (py_round new_lat 6, py_round new_lon 6), g2)))"

text \<open>
  \<open>haversine\<close>. \<open>math.sqrt\<close> raises on a negative argument. In exact arithmetic its
  two arguments here are in \<open>[0, 1]\<close> for all coordinates (lemma \<open>haversine_a_range\<close>
  below), so the function is modelled without a failing branch; on doubles \<open>a\<close> can
  exceed 1 by a rounding error when the two points are almost antipodal, which the model
  does not show.
\<close>

definition haversine :: "real \<Rightarrow> real \<Rightarrow> real \<Rightarrow> real \<Rightarrow> real" where
  "haversine lat1 lon1 lat2 lon2 =
     (let R = 6371;
          dLat = radians (lat2 - lat1);
          dLon = radians (lon2 - lon1);
          lat1' = radians lat1;
          lat2' = radians lat2;
          a = (sin (dLat / 2))\<^sup>2 + cos lat1' * cos lat2' * (sin (dLon / 2))\<^sup>2;
          c = 2 * atan2 (sqrt a) (sqrt (1 - a))
      in R * c)"

definition generate_timestamp :: "int \<Rightarrow> real \<Rightarrow> int" where
  "generate_timestamp start_time increment_seconds = start_time + timedelta increment_seconds"

subsection \<open>Cards, records and the state of the simulation\<close>

text \<open>
  One entry of \<open>cards_data\<close>. The three fields of the last transaction are \<open>None\<close>
  until the card's first transaction.
\<close>

record card_info =
  HomeLatitude :: real
  HomeLongitude :: real
  IsCompromised :: bool
  LastTxTimestamp :: "int option"
  LastTxLatitude :: "real option"
  LastTxLongitude :: "real option"

text \<open>
  One emitted record. \<open>CardID\<close> is the index \<open>i\<close> of the key \<open>CARD_i\<close>,
  \<open>MerchantID\<close> the number after \<open>MERCHANT_\<close>; the copy of the home coordinates
  is \<open>RecHomeLatitude\<close>, \<open>RecHomeLongitude\<close> (in the JSON: \<open>HomeLatitude\<close>,
  \<open>HomeLongitude\<close>).
\<close>

record transaction_data =
  TransactionID :: nat
  CardID :: nat
  Timestamp :: int
  Amount :: real
  MerchantID :: int
  MerchantLatitude :: real
  MerchantLongitude :: real
  IsFraud :: bool
  RecHomeLatitude :: real
  RecHomeLongitude :: real

text \<open>
  The state that the main loop reads and writes: the cards (the dictionary keeps
  insertion order, so the keys \<open>CARD_0\<close>, \<open>CARD_1\<close>, ... are the positions of a list),
  the shared clock, the generator, the identifiers \<open>uuid4\<close> will return, and the lines
  printed so far.
\<close>

record sim_state =
  cards_data :: "card_info list"
  current_time :: int
  rng :: rng_state
  uuids :: "nat stream"
  stdout :: "transaction_data list"

subsection \<open>Bootstrap\<close>

definition new_card :: "config \<Rightarrow> rng_state \<Rightarrow> card_info \<times> rng_state" where
  "new_card cfg g =
     (let (home_lat, g1) = uniform 25 65 g;
          (home_lon, g2) = uniform (- 125) 40 g1;
          (u, g3) = random g2
      in (\<lparr> HomeLatitude = py_round home_lat 6,
             HomeLongitude = py_round home_lon 6,
             IsCompromised = (u < COMPROMISE_CARD_PROBABILITY cfg),
             LastTxTimestamp = None,
             LastTxLatitude = None,
             LastTxLongitude = None \<rparr>, g3))"

fun init_cards :: "config \<Rightarrow> nat \<Rightarrow> rng_state \<Rightarrow> card_info list \<times> rng_state" where
  "init_cards cfg 0 g = ([], g)"
| "init_cards cfg (Suc n) g =
     (let (c, g1) = new_card cfg g;
          (cs, g2) = init_cards cfg n g1
      in (c # cs, g2))"

subsection \<open>One transaction\<close>

text \<open>
  The velocity block of the fraud path (the \<open>if\<close> on the card's last transaction and
  all it contains): the value of \<open>current_time\<close> after it. The guard tests the
  truthiness of the two stored values: a datetime is always true, a float is true when it
  is not zero.
\<close>

definition velocity_block ::
  "config \<Rightarrow> card_info \<Rightarrow> int \<Rightarrow> real \<Rightarrow> real \<Rightarrow> rng_state \<Rightarrow> (error + int) \<times> rng_state" where
  "velocity_block cfg card_info now merchant_lat merchant_lon g =
     (case LastTxTimestamp card_info of
        None \<Rightarrow> (Inr now, g)
      | Some last_ts \<Rightarrow>
         (case LastTxLatitude card_info of
            None \<Rightarrow> (Inr now, g)
          | Some last_lat \<Rightarrow>
             if last_lat = 0 then (Inr now, g)
             else
               (let time_delta_seconds = total_seconds (now - last_ts)
                in if 0 < time_delta_seconds then
                     (case LastTxLongitude card_info of
                        None \<Rightarrow> (Inl TypeError, g)
                      | Some last_lon \<Rightarrow>
                         (let distance_km = haversine last_lat last_lon merchant_lat merchant_lon;
                              velocity_kmh = (distance_km / time_delta_seconds) * 3600
                          in if velocity_kmh < HIGH_VELOCITY_THRESHOLD_KMH cfg then
                               (let (u, g1) = random g
                                in if u < 1 / 2 then
                                     (case py_div distance_km (HIGH_VELOCITY_THRESHOLD_KMH cfg) of
                                        Inl e \<Rightarrow> (Inl e, g1)
                                      | Inr q \<Rightarrow>
                                         (let required_time_seconds = q * 3600;
                                              (d, g2) = uniform (required_time_seconds * (5 / 10))
                                                          (required_time_seconds * (9 / 10)) g1;
                                              simulated_short_delay = max 1 d
                                          in (Inr (last_ts + timedelta simulated_short_delay), g2)))
                                   else (Inr now, g1))
                             else (Inr now, g)))
                   else
                     (case py_div 1 (AVG_TRANSACTION_DELAY_SECONDS cfg) of
                        Inl e \<Rightarrow> (Inl e, g)
                      | Inr lambd \<Rightarrow>
                         (case expovariate lambd g of
                            (Inl e, g1) \<Rightarrow> (Inl e, g1)
                          | (Inr time_increment, g1) \<Rightarrow>
                              (Inr (generate_timestamp now time_increment), g1))))))"

text \<open>
  The two branches of the fraud decision. Each returns the amount, the merchant's
  coordinates and the value of \<open>current_time\<close> after the branch.
\<close>

definition fraud_path ::
  "config \<Rightarrow> card_info \<Rightarrow> int \<Rightarrow> rng_state \<Rightarrow> (error + real \<times> real \<times> real \<times> int) \<times> rng_state" where
  "fraud_path cfg card_info now g =
     (let (a, g1) = uniform (fst (FRAUD_AMOUNT_RANGE cfg)) (snd (FRAUD_AMOUNT_RANGE cfg)) g;
          amount = py_round a 2;
          (max_distance_km, g2) =
             uniform (LOCATION_VARIATION_KM_NORMAL cfg * 2) (LOCATION_VARIATION_KM_FRAUD cfg) g1
      in case generate_location_around (HomeLatitude card_info) (HomeLongitude card_info) max_distance_km g2 of
           (Inl e, g3) \<Rightarrow> (Inl e, g3)
         | (Inr (merchant_lat, merchant_lon), g3) \<Rightarrow>
            (case velocity_block cfg card_info now merchant_lat merchant_lon g3 of
               (Inl e, g4) \<Rightarrow> (Inl e, g4)
             | (Inr now', g4) \<Rightarrow> (Inr (amount, merchant_lat, merchant_lon, now'), g4)))"

definition normal_path ::
  "config \<Rightarrow> card_info \<Rightarrow> int \<Rightarrow> rng_state \<Rightarrow> (error + real \<times> real \<times> real \<times> int) \<times> rng_state" where
  "normal_path cfg card_info now g =
     (let (a, g1) = uniform (fst (NORMAL_AMOUNT_RANGE cfg)) (snd (NORMAL_AMOUNT_RANGE cfg)) g;
          amount = py_round a 2;
          (max_distance_km, g2) = uniform 0 (LOCATION_VARIATION_KM_NORMAL cfg) g1
      in case generate_location_around (HomeLatitude card_info) (HomeLongitude card_info) max_distance_km g2 of
           (Inl e, g3) \<Rightarrow> (Inl e, g3)
         | (Inr (merchant_lat, merchant_lon), g3) \<Rightarrow>
            (case py_div 1 (AVG_TRANSACTION_DELAY_SECONDS cfg) of
               Inl e \<Rightarrow> (Inl e, g3)
             | Inr lambd \<Rightarrow>
                (case expovariate lambd g3 of
                   (Inl e, g4) \<Rightarrow> (Inl e, g4)
                 | (Inr time_increment, g4) \<Rightarrow>
                     (Inr (amount, merchant_lat, merchant_lon,
                           generate_timestamp now time_increment), g4))))"

text \<open>
  The fraud decision: \<open>and\<close> evaluates its second operand, and so takes a draw, only
  when the card is compromised.
\<close>

definition fraud_decision :: "config \<Rightarrow> card_info \<Rightarrow> rng_state \<Rightarrow> bool \<times> rng_state" where
  "fraud_decision cfg card_info g =
     (if IsCompromised card_info
      then (let (u, g1) = random g in (u < FRAUD_INJECTION_PROBABILITY cfg, g1))
      else (False, g))"

text \<open>
  The end of the loop body: the identifiers are drawn, the record is assembled and
  printed, the card's last transaction is overwritten, and the delay is computed and
  not used.
\<close>

definition emit_and_update ::
  "sim_state \<Rightarrow> config \<Rightarrow> nat \<Rightarrow> bool \<Rightarrow> real \<times> real \<times> real \<times> int \<Rightarrow> rng_state \<Rightarrow> sim_state" where
  "emit_and_update st cfg card_id is_fraud res g2 =
     (case res of (amount, merchant_lat, merchant_lon, now) \<Rightarrow>
        (let card_info = cards_data st ! card_id;
             transaction_id = shd (uuids st);
             (merchant_id, g3) = randint 1000 9999 g2;
             transaction =
               \<lparr> TransactionID = transaction_id,
                 CardID = card_id,
                 Timestamp = strftime now,
                 Amount = amount,
                 MerchantID = merchant_id,
                 MerchantLatitude = merchant_lat,
                 MerchantLongitude = merchant_lon,
                 IsFraud = is_fraud,
                 RecHomeLatitude = HomeLatitude card_info,
                 RecHomeLongitude = HomeLongitude card_info \<rparr>;
             card_info' = card_info\<lparr> LastTxTimestamp := Some now,
                                     LastTxLatitude := Some merchant_lat,
                                     LastTxLongitude := Some merchant_lon \<rparr>;
             (delay, g4) = gauss (AVG_TRANSACTION_DELAY_SECONDS cfg)
                             (AVG_TRANSACTION_DELAY_SECONDS cfg / 3) g3
         in \<lparr> cards_data = (cards_data st)[card_id := card_info'],
              current_time = now,
              rng = g4,
              uuids = stl (uuids st),
              stdout = stdout st @ [transaction] \<rparr>))"

text \<open>
  The body of the main loop: a card is chosen (\<open>random.choice\<close> raises \<open>IndexError\<close>
  on an empty list), fraud is decided, one of the two branches runs, and the record is
  emitted. An exception raised in a branch leaves the loop before anything is printed
  for this transaction.
\<close>

definition transaction_step :: "config \<Rightarrow> sim_state \<Rightarrow> error + sim_state" where
  "transaction_step cfg st =
     (if cards_data st = [] then Inl IndexError
      else
        (case randbelow (length (cards_data st)) (rng st) of
           (card_id, g0) \<Rightarrow>
             if \<not> card_id < length (cards_data st) then Inl IndexError
             else
               (case fraud_decision cfg (cards_data st ! card_id) g0 of
                  (is_fraud, g1) \<Rightarrow>
                    (case (if is_fraud
                           then fraud_path cfg (cards_data st ! card_id) (current_time st) g1
                           else normal_path cfg (cards_data st ! card_id) (current_time st) g1) of
                       (Inl e, g2) \<Rightarrow> Inl e
                     | (Inr res, g2) \<Rightarrow> Inr (emit_and_update st cfg card_id is_fraud res g2)))))"

subsection \<open>The main loop and the whole run\<close>

text \<open>
  The loop runs \<open>n\<close> times. An exception ends the run: what was printed before it stays
  printed.
\<close>

fun run_loop :: "config \<Rightarrow> nat \<Rightarrow> sim_state \<Rightarrow> sim_state \<times> error option" where
  "run_loop cfg 0 st = (st, None)"
| "run_loop cfg (Suc n) st =
     (case transaction_step cfg st of
        Inl e \<Rightarrow> (st, Some e)
      | Inr st' \<Rightarrow> run_loop cfg n st')"

text \<open>
  The script: bootstrap, the clock read from the wall clock (\<open>start\<close>), the loop.
  \<open>range(n)\<close> is empty for \<open>n \<le> 0\<close>.
\<close>

definition simulate ::
  "config \<Rightarrow> rng_state \<Rightarrow> int \<Rightarrow> nat stream \<Rightarrow> sim_state \<times> error option" where
  "simulate cfg g start ids =
     (let (cards, g1) = init_cards cfg (nat (NUM_CARDS cfg)) g
      in run_loop cfg (nat (NUM_TRANSACTIONS cfg))
           \<lparr> cards_data = cards, current_time = start, rng = g1, uuids = ids, stdout = [] \<rparr>)"

subsection \<open>Example inputs\<close>

text \<open>Concrete generators, cards, states and configurations, used to run the model.\<close>

definition rng_of :: "real stream \<Rightarrow> rng_state" where
  "rng_of s = \<lparr> draws = s, gauss_next = None \<rparr>"

definition fresh_card :: "real \<Rightarrow> real \<Rightarrow> bool \<Rightarrow> card_info" where
  "fresh_card lat lon c =
     \<lparr> HomeLatitude = lat, HomeLongitude = lon, IsCompromised = c,
       LastTxTimestamp = None, LastTxLatitude = None, LastTxLongitude = None \<rparr>"

definition used_card :: "real \<Rightarrow> real \<Rightarrow> bool \<Rightarrow> int \<Rightarrow> real \<Rightarrow> real \<Rightarrow> card_info" where
  "used_card lat lon c t la lo =
     \<lparr> HomeLatitude = lat, HomeLongitude = lon, IsCompromised = c,
       LastTxTimestamp = Some t, LastTxLatitude = Some la, LastTxLongitude = Some lo \<rparr>"

definition state_of :: "card_info list \<Rightarrow> int \<Rightarrow> real stream \<Rightarrow> sim_state" where
  "state_of cs t s =
     \<lparr> cards_data = cs, current_time = t, rng = rng_of s, uuids = sconst 0, stdout = [] \<rparr>"


text \<open>
  A compromised card whose last transaction was on the equator, four seconds before the
  clock; the draws choose it, make the transaction fraudulent and put the merchant at the
  card's home.
\<close>

definition st_equator :: sim_state where
  "st_equator =
     state_of [used_card 60 10 True 5000000 0 10, fresh_card 30 20 False] 9000000
       (0 ## 0 ## sconst (1 / 2))"

text \<open>The default configuration with one card and one transaction.\<close>

definition cfg_one :: config where
  "cfg_one = default_config\<lparr> NUM_CARDS := 1, NUM_TRANSACTIONS := 1 \<rparr>"

text \<open>
  The state after the bootstrap of one compromised card at latitude 60 and longitude
  -125. The draws choose the card, make its first transaction fraudulent (amount 100,
  distance 100 km) and put the merchant at the home; the draw after the two offsets of
  the location is \<open>3/4\<close>.
\<close>

definition st_first_fraud :: sim_state where
  "st_first_fraud =
     state_of [fresh_card 60 (- 125) True] 1700000000000000
       (0 ## 0 ## 0 ## 0 ## 1 / 2 ## 1 / 2 ## 3 / 4 ## sconst 0)"

text \<open>The same with no card compromised at the bootstrap.\<close>

definition cfg_clean :: config where
  "cfg_clean = cfg_one\<lparr> COMPROMISE_CARD_PROBABILITY := 0 \<rparr>"

subsection \<open>Invariants\<close>

text \<open>Every fraudulent record printed so far names a compromised card.\<close>

definition fraud_sound :: "sim_state \<Rightarrow> bool" where
  "fraud_sound st = (\<forall>r \<in> set (stdout st). IsFraud r \<longrightarrow>
      CardID r < length (cards_data st) \<and> IsCompromised (cards_data st ! CardID r))"

text \<open>
  One card, one transaction, and constants that no valid configuration has: both
  probabilities outside \<open>[0, 1]\<close>, negative radii, amount ranges that are not positive.
\<close>

definition cfg_invalid :: config where
  "cfg_invalid = cfg_one
     \<lparr> FRAUD_INJECTION_PROBABILITY := - 1,
       COMPROMISE_CARD_PROBABILITY := 2,
       LOCATION_VARIATION_KM_NORMAL := - 50,
       LOCATION_VARIATION_KM_FRAUD := - 5000,
       NORMAL_AMOUNT_RANGE := (- 5, - 250),
       FRAUD_AMOUNT_RANGE := (0, 0) \<rparr>"

text \<open>
  A compromised card whose last transaction was at its home, four seconds before the
  clock; the draws make the next transaction fraudulent, put the merchant at the home
  again, and let the forcing draw succeed.
\<close>

definition st_same_place :: sim_state where
  "st_same_place =
     state_of [used_card 60 10 True 5000000 60 10] 9000000
       (0 ## 0 ## 0 ## 0 ## (1 / 2) ## (1 / 2) ## sconst 0)"

text \<open>
  A compromised card at latitude 60 whose last transaction was at latitude 30, long
  before the clock; the draws make the next transaction fraudulent, put the merchant at
  the pole on the same meridian, and let the forcing draw succeed with factor \<open>1/2\<close>.
\<close>

definition st_forced :: sim_state where
  "st_forced =
     state_of [used_card 60 10 True 0 30 10] 50000000000
       (0 ## 0 ## 0 ## (1086 / 1225) ## (7 / 8) ## (1 / 2) ## sconst 0)"

subsection \<open>Two runs from one seed\<close>

text \<open>
  The fields of a record that do not come from the wall clock or from \<open>uuid4\<close>.
\<close>

definition seeded_fields ::
  "transaction_data \<Rightarrow> nat \<times> real \<times> int \<times> real \<times> real \<times> bool \<times> real \<times> real" where
  "seeded_fields r =
     (CardID r, Amount r, MerchantID r, MerchantLatitude r, MerchantLongitude r, IsFraud r,
      RecHomeLatitude r, RecHomeLongitude r)"

text \<open>
  Two states that differ by a shift of the clock: the same cards but for their last
  timestamps, the same generator, and records that agree on the seeded fields.
\<close>

definition shift_card :: "int \<Rightarrow> card_info \<Rightarrow> card_info" where
  "shift_card d c = c\<lparr> LastTxTimestamp := map_option (\<lambda>t. t + d) (LastTxTimestamp c) \<rparr>"

definition shifted :: "int \<Rightarrow> sim_state \<Rightarrow> sim_state \<Rightarrow> bool" where
  "shifted d a b =
     (cards_data b = map (shift_card d) (cards_data a) \<and>
      current_time b = current_time a + d \<and>
      rng b = rng a \<and>
      map seeded_fields (stdout b) = map seeded_fields (stdout a))"

definition shift_result ::
  "int \<Rightarrow> (error + real \<times> real \<times> real \<times> int) \<times> rng_state
       \<Rightarrow> (error + real \<times> real \<times> real \<times> int) \<times> rng_state" where
  "shift_result d x =
     (case x of
        (Inl e, g) \<Rightarrow> (Inl e, g)
      | (Inr (a, la, lo, t), g) \<Rightarrow> (Inr (a, la, lo, t + d), g))"

subsection \<open>Invariants of the generator and of the population\<close>

text \<open>The generator \<open>g'\<close> is \<open>g\<close> after some draws.\<close>

definition advanced :: "rng_state \<Rightarrow> rng_state \<Rightarrow> bool" where
  "advanced g g' = (\<exists>n. draws g' = sdrop n (draws g))"

text \<open>Every home is in the range the bootstrap draws from.\<close>

definition population_ok :: "card_info list \<Rightarrow> bool" where
  "population_ok cs = (\<forall>c \<in> set cs.
      25 \<le> HomeLatitude c \<and> HomeLatitude c \<le> 65 \<and>
      - 125 \<le> HomeLongitude c \<and> HomeLongitude c \<le> 40)"

subsection \<open>The box around the home\<close>

text \<open>
  The argument of the square roots in \<open>haversine\<close>, the local \<open>a\<close>.
\<close>

definition haversine_a :: "real \<Rightarrow> real \<Rightarrow> real \<Rightarrow> real \<Rightarrow> real" where
  "haversine_a lat1 lon1 lat2 lon2 =
     (sin (radians (lat2 - lat1) / 2))\<^sup>2 +
     cos (radians lat1) * cos (radians lat2) * (sin (radians (lon2 - lon1) / 2))\<^sup>2"

text \<open>
  A record whose home is in the bootstrap's range and whose merchant lies in the box of
  \<open>R / 111.1\<close> degrees of latitude and \<open>R / (111.1 * cos(home latitude))\<close> degrees of
  longitude around it, up to the rounding of the coordinates.
\<close>

definition in_degree_box :: "real \<Rightarrow> transaction_data \<Rightarrow> bool" where
  "in_degree_box R r =
     (25 \<le> RecHomeLatitude r \<and> RecHomeLatitude r \<le> 65 \<and>
      - 125 \<le> RecHomeLongitude r \<and> RecHomeLongitude r \<le> 40 \<and>
      \<bar>MerchantLatitude r - RecHomeLatitude r\<bar> \<le> R / (1111 / 10) + 1 / 2000000 \<and>
      \<bar>MerchantLongitude r - RecHomeLongitude r\<bar>
        \<le> R / ((1111 / 10) * cos (radians (RecHomeLatitude r))) + 1 / 2000000)"

definition normal_sound :: "config \<Rightarrow> sim_state \<Rightarrow> bool" where
  "normal_sound cfg st =
     (population_ok (cards_data st) \<and> valid_draws (draws (rng st)) \<and>
      (\<forall>r \<in> set (stdout st). \<not> IsFraud r \<longrightarrow>
          in_degree_box (LOCATION_VARIATION_KM_NORMAL cfg) r))"

text \<open>
  Draws for a run of one card and one normal transaction: the home is at latitude 60 and
  longitude 10, the card is not compromised, the radius is 49.995 km and both offsets are
  the lowest ones.
\<close>

definition corner_draws :: "real stream" where
  "corner_draws = 7 / 8 ## 9 / 11 ## 1 / 2 ## 0 ## 0 ## 9999 / 10000 ## sconst 0"

section \<open>Properties\<close>

subsection \<open>Auxiliary facts\<close>

lemma cos_radians_pos: "- 90 < lat \<Longrightarrow> lat < 90 \<Longrightarrow> 0 < cos (radians lat)"
proof -
  assume a: "- 90 < lat" "lat < 90"
  have "lat * pi < 90 * pi" "(- 90) * pi < lat * pi"
    using mult_strict_right_mono [OF a(2) pi_gt_zero] mult_strict_right_mono [OF a(1) pi_gt_zero]
    by blast+
  then have "- (pi / 2) < radians lat" "radians lat < pi / 2"
    by (simp_all add: radians_def)
  then show ?thesis by (rule cos_gt_zero_pi)
qed

lemma cos_radians_60: "cos (radians 60) = 1 / 2"
  using cos_60 by (simp add: radians_def)

lemma cos_degrees_eq: "cos (radians lat) \<noteq> 0 \<Longrightarrow> cos_degrees lat = cos (radians lat)"
  by (simp add: cos_degrees_def)

lemma cos_degrees_60: "cos_degrees 60 = 1 / 2"
  by (simp add: cos_degrees_def cos_radians_60)

lemma cos_degrees_nonzero: "cos_degrees lat \<noteq> 0"
proof (cases "cos (radians lat) = 0")
  case True
  have "(sin (radians lat))\<^sup>2 + (cos (radians lat))\<^sup>2 = 1"
    by (rule sin_cos_squared_add)
  with True have s: "sin (radians lat) \<noteq> 0"
    by auto
  have l: "lat \<noteq> 0"
    using True by (auto simp: radians_def)
  from True s l show ?thesis
    by (simp add: cos_degrees_def pi_rounding_def)
next
  case False
  then show ?thesis
    by (simp add: cos_degrees_def)
qed

lemmas eval_defs = transaction_step_def state_of_def rng_of_def fresh_card_def used_card_def
  randbelow_def random_def Let_def fraud_decision_def normal_path_def fraud_path_def uniform_def
  generate_location_around_def py_div_def cos_degrees_60 default_config_def
  expovariate_def randint_def gauss_def emit_and_update_def velocity_block_def
  py_round_def round_half_even_def py_mod_def

text \<open>What a successful step has done.\<close>

lemma transaction_step_InrD:
  assumes "transaction_step cfg st = Inr st'"
  shows "\<exists>card_id g0 is_fraud g1 res g2.
     cards_data st \<noteq> [] \<and>
     randbelow (length (cards_data st)) (rng st) = (card_id, g0) \<and>
     card_id < length (cards_data st) \<and>
     fraud_decision cfg (cards_data st ! card_id) g0 = (is_fraud, g1) \<and>
     (if is_fraud then fraud_path cfg (cards_data st ! card_id) (current_time st) g1
      else normal_path cfg (cards_data st ! card_id) (current_time st) g1) = (Inr res, g2) \<and>
     st' = emit_and_update st cfg card_id is_fraud res g2"
  using assms unfolding transaction_step_def
  by (auto split: if_splits prod.splits sum.splits)

lemma emit_and_update_fields:
  "cards_data (emit_and_update st cfg k f (a, la, lo, now) g) =
     (cards_data st)[k := (cards_data st ! k)\<lparr> LastTxTimestamp := Some now,
        LastTxLatitude := Some la, LastTxLongitude := Some lo \<rparr>]"
  "current_time (emit_and_update st cfg k f (a, la, lo, now) g) = now"
  "uuids (emit_and_update st cfg k f (a, la, lo, now) g) = stl (uuids st)"
  "stdout (emit_and_update st cfg k f (a, la, lo, now) g) = stdout st @
     [\<lparr> TransactionID = shd (uuids st), CardID = k, Timestamp = strftime now,
        Amount = a, MerchantID = fst (randint 1000 9999 g), MerchantLatitude = la,
        MerchantLongitude = lo, IsFraud = f,
        RecHomeLatitude = HomeLatitude (cards_data st ! k),
        RecHomeLongitude = HomeLongitude (cards_data st ! k) \<rparr>]"
  by (simp_all add: emit_and_update_def Let_def split: prod.splits)


subsection \<open>The state update\<close>



subsection \<open>The guard of the velocity block\<close>

lemma velocity_block_zero_latitude:
  "LastTxLatitude c = Some 0 \<Longrightarrow> velocity_block cfg c now la lo g = (Inr now, g)"
  by (simp add: velocity_block_def split: option.splits)

lemma fraud_path_InrD:
  assumes "fraud_path cfg c now g = (Inr (a, la, lo, now'), g')"
  shows "\<exists>g3. velocity_block cfg c now la lo g3 = (Inr now', g')"
  using assms unfolding fraud_path_def
  by (auto simp: Let_def split: prod.splits sum.splits)

lemma st_equator_step:
  "\<exists>st' r. transaction_step default_config st_equator = Inr st' \<and>
      stdout st' = stdout st_equator @ [r] \<and> IsFraud r \<and> CardID r = 0"
  by (simp add: st_equator_def eval_defs)

text \<open>
  Claim C10. The card has a last transaction, and its stored latitude is exactly 0. A
  fraudulent transaction of that card then leaves the shared clock where it was: the
  velocity block returns the clock and the generator it was given, for any generator, so
  neither the velocity check nor the exponential increment has run. (A stored timestamp
  is a datetime and is never false, so the latitude is the only way into this case.)
\<close>

theorem zero_latitude_skips_velocity_block:
  assumes "transaction_step cfg st = Inr st'"
    and "stdout st' = stdout st @ [r]"
    and "IsFraud r"
    and "LastTxTimestamp (cards_data st ! CardID r) = Some t"
    and "LastTxLatitude (cards_data st ! CardID r) = Some 0"
  shows "current_time st' = current_time st \<and>
         velocity_block cfg (cards_data st ! CardID r) (current_time st)
           (MerchantLatitude r) (MerchantLongitude r) g = (Inr (current_time st), g)"
proof -
  from transaction_step_InrD [OF assms(1)] obtain k g0 f g1 res g2 where
    path: "(if f then fraud_path cfg (cards_data st ! k) (current_time st) g1
            else normal_path cfg (cards_data st ! k) (current_time st) g1) = (Inr res, g2)"
    and st': "st' = emit_and_update st cfg k f res g2"
    by blast
  obtain a la lo now where res: "res = (a, la, lo, now)"
    by (cases res)
  from assms(2) have r: "CardID r = k" "IsFraud r = f"
    unfolding st' res by (auto simp: emit_and_update_fields)
  with assms(3) path res have "fraud_path cfg (cards_data st ! k) (current_time st) g1
      = (Inr (a, la, lo, now), g2)"
    by simp
  from fraud_path_InrD [OF this] obtain g3 where
    "velocity_block cfg (cards_data st ! k) (current_time st) la lo g3 = (Inr now, g2)"
    by blast
  with assms(5) r(1) have "now = current_time st"
    by (simp add: velocity_block_zero_latitude)
  then have "current_time st' = current_time st"
    unfolding st' res by (simp add: emit_and_update_fields)
  with assms(5) show ?thesis
    by (simp add: velocity_block_zero_latitude)
qed

theorem zero_latitude_skips_velocity_block_witness:
  "\<exists>st' r. transaction_step default_config st_equator = Inr st' \<and>
      stdout st' = stdout st_equator @ [r] \<and> IsFraud r \<and>
      LastTxTimestamp (cards_data st_equator ! CardID r) = Some 5000000 \<and>
      LastTxLatitude (cards_data st_equator ! CardID r) = Some 0 \<and>
      current_time st_equator = 9000000 \<and> current_time st' = 9000000"
proof -
  obtain st' r where s: "transaction_step default_config st_equator = Inr st'"
    "stdout st' = stdout st_equator @ [r]" "IsFraud r" "CardID r = 0"
    using st_equator_step by blast
  have c: "LastTxTimestamp (cards_data st_equator ! CardID r) = Some 5000000"
    "LastTxLatitude (cards_data st_equator ! CardID r) = Some 0"
    "current_time st_equator = 9000000"
    using s(4) by (simp_all add: st_equator_def state_of_def used_card_def)
  from zero_latitude_skips_velocity_block [OF s(1) s(2) s(3) c(1) c(2)] s c
  show ?thesis by auto
qed

subsection \<open>A run of one fraudulent transaction\<close>

lemma init_one:
  "init_cards cfg_one (Suc 0) (rng_of (7 / 8 ## sconst 0)) =
     ([fresh_card 60 (- 125) True], rng_of (sconst 0))"
  by (simp add: cfg_one_def new_card_def default_config_def rng_of_def fresh_card_def
      uniform_def random_def py_round_def round_half_even_def)

lemma first_fraud_step:
  "\<exists>st'. transaction_step cfg_one
      \<lparr> cards_data = [fresh_card 60 (- 125) True], current_time = start,
        rng = rng_of (sconst 0), uuids = ids, stdout = [] \<rparr> = Inr st' \<and>
     map IsFraud (stdout st') = [True] \<and> map Timestamp (stdout st') = [strftime start] \<and>
     current_time st' = start"
  by (simp add: cfg_one_def eval_defs)

lemma first_fraud_run:
  "\<exists>st. simulate cfg_one (rng_of (7 / 8 ## sconst 0)) start ids = (st, None) \<and>
        map IsFraud (stdout st) = [True] \<and>
        map Timestamp (stdout st) = [strftime start] \<and>
        current_time st = start"
proof -
  have n: "nat (NUM_CARDS cfg_one) = Suc 0" "nat (NUM_TRANSACTIONS cfg_one) = Suc 0"
    by (simp_all add: cfg_one_def default_config_def)
  from first_fraud_step [of start ids] show ?thesis
    unfolding simulate_def n init_one by auto
qed

subsection \<open>Fraud and compromise\<close>

lemma valid_draws_shd: "valid_draws s \<Longrightarrow> 0 \<le> shd s \<and> shd s < 1"
  unfolding valid_draws_def by (metis snth.simps(1))

lemma valid_draws_stl: "valid_draws s \<Longrightarrow> valid_draws (stl s)"
  unfolding valid_draws_def by (metis snth.simps(2))

lemma valid_draws_sconst: "0 \<le> x \<Longrightarrow> x < 1 \<Longrightarrow> valid_draws (sconst x)"
  by (simp add: valid_draws_def)

lemma valid_draws_SCons: "0 \<le> x \<Longrightarrow> x < 1 \<Longrightarrow> valid_draws s \<Longrightarrow> valid_draws (x ## s)"
  unfolding valid_draws_def
proof
  fix n assume a: "0 \<le> x" "x < 1" "\<forall>n. 0 \<le> s !! n \<and> s !! n < 1"
  show "0 \<le> (x ## s) !! n \<and> (x ## s) !! n < 1"
    using a by (cases n) simp_all
qed

lemma fraud_decision_True: "fraud_decision cfg c g = (True, g') \<Longrightarrow> IsCompromised c"
  by (auto simp: fraud_decision_def split: if_splits)

lemma step_compromised_flags:
  assumes "transaction_step cfg st = Inr st'"
  shows "map IsCompromised (cards_data st') = map IsCompromised (cards_data st)"
proof -
  from transaction_step_InrD [OF assms] obtain k g0 f g1 res g2 where
    k: "k < length (cards_data st)" and st': "st' = emit_and_update st cfg k f res g2"
    by blast
  obtain a la lo now where res: "res = (a, la, lo, now)"
    by (cases res)
  show ?thesis
    unfolding st' res using k
    by (simp add: emit_and_update_fields map_update list_update_same_conv)
qed

lemma step_fraud_sound:
  assumes "transaction_step cfg st = Inr st'" and "fraud_sound st"
  shows "fraud_sound st'"
proof -
  from transaction_step_InrD [OF assms(1)] obtain k g0 f g1 res g2 where
    k: "k < length (cards_data st)"
    and f: "fraud_decision cfg (cards_data st ! k) g0 = (f, g1)"
    and st': "st' = emit_and_update st cfg k f res g2"
    by blast
  obtain a la lo now where res: "res = (a, la, lo, now)"
    by (cases res)
  have new: "f \<Longrightarrow> IsCompromised (cards_data st ! k)"
    using f fraud_decision_True [of cfg "cards_data st ! k" g0 g1] by simp
  have flags: "IsCompromised (cards_data st' ! j) = IsCompromised (cards_data st ! j)"
    if "j < length (cards_data st)" for j
    using that unfolding st' res by (cases "j = k") (simp_all add: emit_and_update_fields)
  have len: "length (cards_data st') = length (cards_data st)"
    unfolding st' res by (simp add: emit_and_update_fields)
  have out: "stdout st' = stdout st @
     [\<lparr> TransactionID = shd (uuids st), CardID = k, Timestamp = strftime now,
        Amount = a, MerchantID = fst (randint 1000 9999 g2), MerchantLatitude = la,
        MerchantLongitude = lo, IsFraud = f,
        RecHomeLatitude = HomeLatitude (cards_data st ! k),
        RecHomeLongitude = HomeLongitude (cards_data st ! k) \<rparr>]"
    unfolding st' res by (simp add: emit_and_update_fields)
  show ?thesis
    unfolding fraud_sound_def
  proof (intro ballI impI)
    fix r assume r: "r \<in> set (stdout st')" and fr: "IsFraud r"
    show "CardID r < length (cards_data st') \<and> IsCompromised (cards_data st' ! CardID r)"
    proof (cases "r \<in> set (stdout st)")
      case True
      with assms(2) fr have "CardID r < length (cards_data st)"
        "IsCompromised (cards_data st ! CardID r)"
        by (auto simp: fraud_sound_def)
      then show ?thesis using flags len by simp
    next
      case False
      with r out have "CardID r = k" "IsFraud r = f" by auto
      with fr new k flags len show ?thesis by simp
    qed
  qed
qed

lemma run_loop_fraud_sound:
  "fraud_sound st \<Longrightarrow> run_loop cfg n st = (st', e) \<Longrightarrow>
     fraud_sound st' \<and> map IsCompromised (cards_data st') = map IsCompromised (cards_data st)"
proof (induction n arbitrary: st)
  case 0
  then show ?case by simp
next
  case (Suc n)
  show ?case
  proof (cases "transaction_step cfg st")
    case (Inl err)
    with Suc.prems show ?thesis by simp
  next
    case (Inr st1)
    with Suc.prems have "run_loop cfg n st1 = (st', e)" by simp
    from Suc.IH [OF step_fraud_sound [OF Inr Suc.prems(1)] this]
    show ?thesis using step_compromised_flags [OF Inr] by simp
  qed
qed

lemma init_cards_clean:
  "COMPROMISE_CARD_PROBABILITY cfg = 0 \<Longrightarrow> valid_draws (draws g) \<Longrightarrow>
     init_cards cfg n g = (cs, g') \<Longrightarrow> (\<forall>c \<in> set cs. \<not> IsCompromised c)"
proof (induction n arbitrary: g cs g')
  case 0
  then show ?case by simp
next
  case (Suc n)
  obtain c g1 where c: "new_card cfg g = (c, g1)" by (cases "new_card cfg g")
  obtain cs1 g2 where cs1: "init_cards cfg n g1 = (cs1, g2)" by (cases "init_cards cfg n g1")
  have s3: "0 \<le> shd (stl (stl (draws g)))"
    using Suc.prems(2) valid_draws_stl valid_draws_shd by blast
  from c have nc: "\<not> IsCompromised c" and g1: "draws g1 = stl (stl (stl (draws g)))"
    using Suc.prems(1) s3
    by (auto simp: new_card_def uniform_def random_def Let_def split: prod.splits)
  have "valid_draws (draws g1)"
    unfolding g1 using Suc.prems(2) valid_draws_stl by blast
  from Suc.IH [OF Suc.prems(1) this cs1] nc Suc.prems(3) c cs1
  show ?case by auto
qed


lemma init_clean:
  "init_cards cfg_clean (Suc 0) (rng_of (7 / 8 ## sconst 0)) =
     ([fresh_card 60 (- 125) False], rng_of (sconst 0))"
  by (simp add: cfg_clean_def cfg_one_def new_card_def default_config_def rng_of_def fresh_card_def
      uniform_def random_def py_round_def round_half_even_def)

lemma clean_step:
  "\<exists>st'. transaction_step cfg_clean
      \<lparr> cards_data = [fresh_card 60 (- 125) False], current_time = start,
        rng = rng_of (sconst 0), uuids = ids, stdout = [] \<rparr> = Inr st' \<and>
     length (stdout st') = 1"
  by (simp add: cfg_clean_def cfg_one_def eval_defs)

lemma clean_run:
  "\<exists>st. simulate cfg_clean (rng_of (7 / 8 ## sconst 0)) start ids = (st, None) \<and>
        length (stdout st) = 1"
proof -
  have n: "nat (NUM_CARDS cfg_clean) = Suc 0" "nat (NUM_TRANSACTIONS cfg_clean) = Suc 0"
    by (simp_all add: cfg_clean_def cfg_one_def default_config_def)
  from clean_step [of start ids] show ?thesis
    unfolding simulate_def n init_clean by auto
qed

text \<open>
  Claim C3. In any run, whether it ends normally or with an exception, the compromise
  flags at the end are those the bootstrap drew, and every record with \<open>IsFraud\<close>
  names a card whose flag is set. With compromise probability 0 (and draws in
  \<open>[0, 1)\<close>, as \<open>random.random()\<close> returns them) no record of the run is
  fraudulent, whatever the number of cards and of transactions.
\<close>

theorem fraud_only_on_compromised_cards:
  assumes "simulate cfg g start ids = (st, err)"
  shows "map IsCompromised (cards_data st) =
           map IsCompromised (fst (init_cards cfg (nat (NUM_CARDS cfg)) g)) \<and>
         (\<forall>r \<in> set (stdout st). IsFraud r \<longrightarrow>
            CardID r < length (cards_data st) \<and> IsCompromised (cards_data st ! CardID r)) \<and>
         (COMPROMISE_CARD_PROBABILITY cfg = 0 \<longrightarrow> valid_draws (draws g) \<longrightarrow>
            (\<forall>r \<in> set (stdout st). \<not> IsFraud r))"
proof -
  obtain cs g1 where i: "init_cards cfg (nat (NUM_CARDS cfg)) g = (cs, g1)"
    by (cases "init_cards cfg (nat (NUM_CARDS cfg)) g")
  let ?st0 = "\<lparr> cards_data = cs, current_time = start, rng = g1, uuids = ids, stdout = [] \<rparr>"
  have run: "run_loop cfg (nat (NUM_TRANSACTIONS cfg)) ?st0 = (st, err)"
    using assms i by (simp add: simulate_def)
  have "fraud_sound ?st0"
    by (simp add: fraud_sound_def)
  from run_loop_fraud_sound [OF this run]
  have sound: "fraud_sound st" and flags: "map IsCompromised (cards_data st) = map IsCompromised cs"
    by simp_all
  have clean: "\<forall>r \<in> set (stdout st). \<not> IsFraud r"
    if p: "COMPROMISE_CARD_PROBABILITY cfg = 0" and v: "valid_draws (draws g)"
  proof
    fix r assume r: "r \<in> set (stdout st)"
    show "\<not> IsFraud r"
    proof
      assume "IsFraud r"
      with sound r have k: "CardID r < length (cards_data st)"
        and c: "IsCompromised (cards_data st ! CardID r)"
        by (auto simp: fraud_sound_def)
      from k flags have k': "CardID r < length cs"
        by (metis length_map)
      from flags k k' have "IsCompromised (cs ! CardID r) = IsCompromised (cards_data st ! CardID r)"
        by (metis nth_map)
      with c init_cards_clean [OF p v i] k' show False
        by auto
    qed
  qed
  from sound flags clean i show ?thesis
    by (simp add: fraud_sound_def)
qed

theorem fraud_only_on_compromised_cards_witness:
  "(\<exists>st r. simulate cfg_one (rng_of (7 / 8 ## sconst 0)) 0 (sconst 0) = (st, None) \<and>
      r \<in> set (stdout st) \<and> IsFraud r \<and>
      CardID r < length (cards_data st) \<and> IsCompromised (cards_data st ! CardID r)) \<and>
   (\<exists>st. simulate cfg_clean (rng_of (7 / 8 ## sconst 0)) 0 (sconst 0) = (st, None) \<and>
      COMPROMISE_CARD_PROBABILITY cfg_clean = 0 \<and>
      valid_draws (draws (rng_of (7 / 8 ## sconst 0))) \<and>
      length (stdout st) = 1 \<and> (\<forall>r \<in> set (stdout st). \<not> IsFraud r))"
proof (rule conjI)
  from first_fraud_run [of 0 "sconst 0"] obtain st where
    "simulate cfg_one (rng_of (7 / 8 ## sconst 0)) 0 (sconst 0) = (st, None) \<and>
        map IsFraud (stdout st) = [True] \<and>
        map Timestamp (stdout st) = [strftime 0] \<and>
        current_time st = 0" ..
  then have st: "simulate cfg_one (rng_of (7 / 8 ## sconst 0)) 0 (sconst 0) = (st, None)"
    and fr: "map IsFraud (stdout st) = [True]"
    by simp_all
  from fr obtain r where r: "stdout st = [r]" "IsFraud r"
    by (auto simp: map_eq_Cons_conv)
  then have m: "r \<in> set (stdout st)"
    by simp
  have "\<forall>r \<in> set (stdout st). IsFraud r \<longrightarrow>
      CardID r < length (cards_data st) \<and> IsCompromised (cards_data st ! CardID r)"
    using fraud_only_on_compromised_cards [OF st] by (rule conjunct1 [OF conjunct2])
  with m r(2) have a: "CardID r < length (cards_data st)"
    "IsCompromised (cards_data st ! CardID r)"
    by simp_all
  show "\<exists>st r. simulate cfg_one (rng_of (7 / 8 ## sconst 0)) 0 (sconst 0) = (st, None) \<and>
      r \<in> set (stdout st) \<and> IsFraud r \<and>
      CardID r < length (cards_data st) \<and> IsCompromised (cards_data st ! CardID r)"
    by (intro exI [of _ st] exI [of _ r] conjI st m r(2) a)
next
  from clean_run [of 0 "sconst 0"] obtain st2 where
    "simulate cfg_clean (rng_of (7 / 8 ## sconst 0)) 0 (sconst 0) = (st2, None) \<and>
        length (stdout st2) = 1" ..
  then have st2: "simulate cfg_clean (rng_of (7 / 8 ## sconst 0)) 0 (sconst 0) = (st2, None)"
    and len: "length (stdout st2) = 1"
    by simp_all
  have p: "COMPROMISE_CARD_PROBABILITY cfg_clean = 0"
    by (simp add: cfg_clean_def)
  have "valid_draws (7 / 8 ## sconst 0)"
    by (intro valid_draws_SCons valid_draws_sconst) simp_all
  then have v: "valid_draws (draws (rng_of (7 / 8 ## sconst 0)))"
    by (simp add: rng_of_def)
  have "COMPROMISE_CARD_PROBABILITY cfg_clean = 0 \<longrightarrow>
      valid_draws (draws (rng_of (7 / 8 ## sconst 0))) \<longrightarrow>
      (\<forall>r \<in> set (stdout st2). \<not> IsFraud r)"
    using fraud_only_on_compromised_cards [OF st2] by (rule conjunct2 [OF conjunct2])
  with p v have b: "\<forall>r \<in> set (stdout st2). \<not> IsFraud r"
    by simp
  show "\<exists>st. simulate cfg_clean (rng_of (7 / 8 ## sconst 0)) 0 (sconst 0) = (st, None) \<and>
      COMPROMISE_CARD_PROBABILITY cfg_clean = 0 \<and>
      valid_draws (draws (rng_of (7 / 8 ## sconst 0))) \<and>
      length (stdout st) = 1 \<and> (\<forall>r \<in> set (stdout st). \<not> IsFraud r)"
    by (intro exI [of _ st2] conjI st2 p v len b)
qed

subsection \<open>Invalid configurations\<close>

lemma init_invalid:
  "init_cards cfg_invalid (Suc 0) (rng_of (7 / 8 ## sconst 0)) =
     ([fresh_card 60 (- 125) True], rng_of (sconst 0))"
  by (simp add: cfg_invalid_def cfg_one_def new_card_def default_config_def rng_of_def fresh_card_def
      uniform_def random_def py_round_def round_half_even_def)

lemma invalid_step:
  "\<exists>st'. transaction_step cfg_invalid
      \<lparr> cards_data = [fresh_card 60 (- 125) True], current_time = start,
        rng = rng_of (sconst 0), uuids = ids, stdout = [] \<rparr> = Inr st' \<and>
     length (stdout st') = 1"
  by (simp add: cfg_invalid_def cfg_one_def eval_defs)

lemma run_loop_no_cards:
  "cards_data st = [] \<Longrightarrow> run_loop cfg (Suc n) st = (st, Some IndexError)"
  by (simp add: transaction_step_def)

text \<open>
  Claim C9, as the code has it. Nothing is validated before the loop, and a configuration
  whose probabilities, radii and amount ranges are all invalid runs to its end and prints
  its record.
\<close>

theorem invalid_configuration_runs:
  "snd (simulate cfg_invalid (rng_of (7 / 8 ## sconst 0)) 0 (sconst 0)) = None \<and>
   length (stdout (fst (simulate cfg_invalid (rng_of (7 / 8 ## sconst 0)) 0 (sconst 0)))) = 1 \<and>
   \<not> (0 \<le> COMPROMISE_CARD_PROBABILITY cfg_invalid \<and> COMPROMISE_CARD_PROBABILITY cfg_invalid \<le> 1) \<and>
   \<not> (0 \<le> FRAUD_INJECTION_PROBABILITY cfg_invalid \<and> FRAUD_INJECTION_PROBABILITY cfg_invalid \<le> 1) \<and>
   LOCATION_VARIATION_KM_NORMAL cfg_invalid \<le> 0 \<and>
   LOCATION_VARIATION_KM_FRAUD cfg_invalid \<le> 0 \<and>
   snd (NORMAL_AMOUNT_RANGE cfg_invalid) \<le> 0 \<and>
   snd (FRAUD_AMOUNT_RANGE cfg_invalid) \<le> 0"
proof -
  have n: "nat (NUM_CARDS cfg_invalid) = Suc 0" "nat (NUM_TRANSACTIONS cfg_invalid) = Suc 0"
    by (simp_all add: cfg_invalid_def cfg_one_def default_config_def)
  from invalid_step [of 0 "sconst 0"] obtain st' where
    "transaction_step cfg_invalid
      \<lparr> cards_data = [fresh_card 60 (- 125) True], current_time = 0,
        rng = rng_of (sconst 0), uuids = sconst 0, stdout = [] \<rparr> = Inr st' \<and>
     length (stdout st') = 1" ..
  then have "simulate cfg_invalid (rng_of (7 / 8 ## sconst 0)) 0 (sconst 0) = (st', None)"
    and "length (stdout st') = 1"
    unfolding simulate_def n init_invalid by simp_all
  then show ?thesis
    by (simp add: cfg_invalid_def)
qed

lemma empty_population_fails:
  assumes "NUM_CARDS cfg \<le> 0" and "0 < NUM_TRANSACTIONS cfg"
  shows "snd (simulate cfg g start ids) = Some IndexError \<and>
         stdout (fst (simulate cfg g start ids)) = []"
proof -
  from assms(2) obtain n where n: "nat (NUM_TRANSACTIONS cfg) = Suc n"
    by (cases "nat (NUM_TRANSACTIONS cfg)") auto
  from assms(1) have c: "nat (NUM_CARDS cfg) = 0"
    by simp
  show ?thesis
    unfolding simulate_def n c by (simp add: run_loop_no_cards del: run_loop.simps)
qed

subsection \<open>Velocity forcing\<close>

lemma round_half_even_bounds:
  "of_int (round_half_even x) \<le> x + 1 / 2" "x - 1 / 2 \<le> of_int (round_half_even x)"
  by (auto simp: round_half_even_def Let_def; linarith)+

lemma random_draws: "random g = (u, g') \<Longrightarrow> u = shd (draws g) \<and> g' = g\<lparr>draws := stl (draws g)\<rparr>"
  by (auto simp: random_def)

lemma uniform_eq:
  "uniform a b g = (a + (b - a) * shd (draws g), g\<lparr>draws := stl (draws g)\<rparr>)"
  by (simp add: uniform_def random_def)

lemma velocity_block_forced:
  assumes "LastTxTimestamp c = Some last_ts"
    and "LastTxLatitude c = Some last_lat" and "last_lat \<noteq> 0"
    and "LastTxLongitude c = Some last_lon"
    and "0 < total_seconds (now - last_ts)"
    and "haversine last_lat last_lon la lo / total_seconds (now - last_ts) * 3600
           < HIGH_VELOCITY_THRESHOLD_KMH cfg"
    and "shd (draws g) < 1 / 2"
    and "HIGH_VELOCITY_THRESHOLD_KMH cfg \<noteq> 0"
  shows "velocity_block cfg c now la lo g =
     (Inr (last_ts + timedelta (max 1
        (haversine last_lat last_lon la lo / HIGH_VELOCITY_THRESHOLD_KMH cfg * 3600
           * (1 / 2 + 2 / 5 * shd (stl (draws g)))))),
      g\<lparr>draws := stl (stl (draws g))\<rparr>)"
proof -
  let ?req = "haversine last_lat last_lon la lo / HIGH_VELOCITY_THRESHOLD_KMH cfg * 3600"
  have e: "?req * (5 / 10) + (?req * (9 / 10) - ?req * (5 / 10)) * u
      = ?req * (1 / 2 + 2 / 5 * u)" for u
    by (simp add: algebra_simps add_divide_distrib)
  have "velocity_block cfg c now la lo g =
     (Inr (last_ts + timedelta (max 1
        (?req * (5 / 10) + (?req * (9 / 10) - ?req * (5 / 10)) * shd (stl (draws g))))),
      g\<lparr>draws := stl (stl (draws g))\<rparr>)"
    using assms
    by (simp add: velocity_block_def Let_def py_div_def uniform_eq random_def mult_ac)
  then show ?thesis
    unfolding e .
qed


lemma forced_velocity_arith:
  fixes T dist f :: real
  assumes T: "0 < T" and f: "1 / 2 \<le> f" "f < 9 / 10" and d: "1 \<le> dist / T * 3600 * f"
  shows "T < dist / total_seconds (timedelta (dist / T * 3600 * f)) * 3600"
proof -
  define req where "req = dist / T * 3600"
  define ts where "ts = total_seconds (timedelta (req * f))"
  have req_pos: "0 < req"
  proof (rule ccontr)
    assume "\<not> 0 < req"
    then have "req * f \<le> 0"
      using f by (simp add: mult_nonpos_nonneg)
    with d show False by (simp add: req_def)
  qed
  have r1: "of_int (round_half_even (req * f * 1000000)) \<le> req * f * 1000000 + 1 / 2"
    and r2: "req * f * 1000000 - 1 / 2 \<le> of_int (round_half_even (req * f * 1000000))"
    by (rule round_half_even_bounds)+
  have d': "1 \<le> req * f"
    using d by (simp add: req_def)
  have ts_pos: "0 < ts"
    using r2 d' by (simp add: ts_def total_seconds_def timedelta_def)
  have "ts \<le> req * f + 1 / 2000000"
    using r1 by (simp add: ts_def total_seconds_def timedelta_def field_simps)
  also have "\<dots> \<le> req * f + req * f * (1 / 2000000)"
    using d' by (simp add: mult.commute)
  also have "\<dots> = req * (f * (1 + 1 / 2000000))"
    by (simp add: algebra_simps)
  also have "\<dots> < req * 1"
    using f req_pos by (intro mult_strict_left_mono) simp_all
  finally have lt: "ts < req"
    by simp
  have dist: "dist * 3600 = req * T"
    using T by (simp add: req_def)
  have "T * ts < req * T"
    using lt T by (simp add: mult.commute)
  then have "T < req * T / ts"
    using ts_pos by (simp add: pos_less_divide_eq)
  also have "req * T / ts = dist / ts * 3600"
    using dist by (simp add: field_simps)
  finally show ?thesis
    by (simp add: ts_def req_def)
qed

lemma randbelow_draws: "randbelow n g = (k, g') \<Longrightarrow> g' = g\<lparr>draws := stl (draws g)\<rparr>"
  by (auto simp: randbelow_def random_def)

lemma fraud_decision_True_draws:
  "fraud_decision cfg c g = (True, g') \<Longrightarrow> g' = g\<lparr>draws := stl (draws g)\<rparr>"
  by (auto simp: fraud_decision_def random_def split: if_splits)

lemma fraud_path_velocity_block:
  assumes "fraud_path cfg c now g = (Inr (a, la, lo, now'), g')"
  shows "velocity_block cfg c now la lo (g\<lparr>draws := stl (stl (stl (stl (draws g))))\<rparr>)
           = (Inr now', g')"
  using assms unfolding fraud_path_def generate_location_around_def
  by (auto simp: Let_def uniform_eq split: prod.splits sum.splits)


lemma snth_6: "s !! 6 = shd (stl (stl (stl (stl (stl (stl s))))))"
  by (simp add: eval_nat_numeral)

lemma snth_7: "s !! 7 = shd (stl (stl (stl (stl (stl (stl (stl s)))))))"
  by (simp add: eval_nat_numeral)

lemma haversine_same: "haversine la lo la lo = 0"
  by (simp add: haversine_def radians_def atan2_def)

lemma arctan_inv_sqrt3: "arctan (1 / sqrt 3) = pi / 6"
  by (rule arctan_unique) (simp_all add: tan_30)

lemma cos_radians_90: "cos (radians 90) = 0"
  by (simp add: radians_def)

lemma haversine_30_90: "haversine 30 10 90 10 = 6371 * pi / 3"
proof -
  have r: "radians (90 - 30) / 2 = pi / 6" "radians (10 - 10) / 2 = 0"
    by (simp_all add: radians_def)
  have s: "sqrt (1 / 4) = 1 / 2" "sqrt (3 / 4) = sqrt 3 / 2"
    by (simp_all add: real_sqrt_divide)
  have "(1 / 2) / (sqrt 3 / 2) = 1 / sqrt 3"
    by simp
  then have a: "atan2 (1 / 2) (sqrt 3 / 2) = pi / 6"
    by (simp add: atan2_def arctan_inv_sqrt3)
  show ?thesis
    unfolding haversine_def Let_def r
    by (simp add: sin_30 power2_eq_square s a)
qed

lemma rng_of_simps:
  "draws (rng_of s) = s" "gauss_next (rng_of s) = None"
  "(rng_of s)\<lparr>draws := s'\<rparr> = rng_of s'"
  "random (rng_of s) = (shd s, rng_of (stl s))"
  "uniform a b (rng_of s) = (a + (b - a) * shd s, rng_of (stl s))"
  "randbelow n (rng_of s) = (nat \<lfloor>shd s * real n\<rfloor>, rng_of (stl s))"
  by (simp_all add: rng_of_def random_def uniform_def randbelow_def)

lemma state_of_simps:
  "cards_data (state_of cs t s) = cs" "current_time (state_of cs t s) = t"
  "rng (state_of cs t s) = rng_of s" "uuids (state_of cs t s) = sconst 0"
  "stdout (state_of cs t s) = []"
  by (simp_all add: state_of_def)

lemma used_card_simps:
  "HomeLatitude (used_card lat lon c t la lo) = lat"
  "HomeLongitude (used_card lat lon c t la lo) = lon"
  "IsCompromised (used_card lat lon c t la lo) = c"
  "LastTxTimestamp (used_card lat lon c t la lo) = Some t"
  "LastTxLatitude (used_card lat lon c t la lo) = Some la"
  "LastTxLongitude (used_card lat lon c t la lo) = Some lo"
  by (simp_all add: used_card_def)

lemma default_config_simps:
  "NUM_CARDS default_config = 50"
  "NUM_TRANSACTIONS default_config = 1000"
  "FRAUD_INJECTION_PROBABILITY default_config = 3 / 100"
  "COMPROMISE_CARD_PROBABILITY default_config = 10 / 100"
  "AVG_TRANSACTION_DELAY_SECONDS default_config = 5 / 10"
  "LOCATION_VARIATION_KM_NORMAL default_config = 50"
  "LOCATION_VARIATION_KM_FRAUD default_config = 5000"
  "NORMAL_AMOUNT_RANGE default_config = (5, 250)"
  "FRAUD_AMOUNT_RANGE default_config = (100, 2000)"
  "HIGH_VELOCITY_THRESHOLD_KMH default_config = 800"
  by (simp_all add: default_config_def)

lemma forced_location:
  "generate_location_around 60 10 4444 (rng_of (7 / 8 ## 1 / 2 ## s)) = (Inr (90, 10), rng_of s)"
  by (simp add: generate_location_around_def py_div_def cos_degrees_60 rng_of_simps Let_def
      py_round_def round_half_even_def py_mod_def)

lemma forced_slow:
  "haversine 30 10 90 10 / total_seconds (50000000000 - 0) * 3600 < 800"
proof -
  have "6371 * pi / 3 < 6371 * 4 / 3"
    using pi_less_4 by simp
  then show ?thesis
    by (simp add: haversine_30_90 total_seconds_def)
qed

lemma forced_block:
  "velocity_block default_config (used_card 60 10 True 0 30 10) 50000000000 90 10
     (rng_of (sconst 0)) =
   (Inr (0 + timedelta (max 1 (haversine 30 10 90 10 / 800 * 3600 * (1 / 2 + 2 / 5 * 0)))),
    rng_of (sconst 0))"
  using velocity_block_forced [of "used_card 60 10 True 0 30 10" 0 30 10 50000000000 90 10
      default_config "rng_of (sconst 0)"] forced_slow
  by (simp add: used_card_simps default_config_simps rng_of_simps total_seconds_def)


lemma st_forced_step:
  "\<exists>st' r. transaction_step default_config st_forced = Inr st' \<and>
      stdout st' = stdout st_forced @ [r] \<and> IsFraud r \<and> CardID r = 0 \<and>
      MerchantLatitude r = 90 \<and> MerchantLongitude r = 10"
proof -
  let ?c = "used_card 60 10 True 0 30 10"
  let ?X = "0 + timedelta (max 1 (haversine 30 10 90 10 / 800 * 3600 * (1 / 2 + 2 / 5 * 0)))"
  have fd: "fraud_decision default_config ?c
      (rng_of (0 ## 0 ## (1086 / 1225) ## (7 / 8) ## (1 / 2) ## sconst 0)) =
      (True, rng_of (0 ## (1086 / 1225) ## (7 / 8) ## (1 / 2) ## sconst 0))"
    by (simp add: fraud_decision_def used_card_simps rng_of_simps default_config_simps)
  have fp: "fraud_path default_config ?c 50000000000
      (rng_of (0 ## (1086 / 1225) ## (7 / 8) ## (1 / 2) ## sconst 0)) =
      (Inr (100, 90, 10, ?X), rng_of (sconst 0))"
    by (simp add: fraud_path_def used_card_simps rng_of_simps default_config_simps
        forced_location forced_block py_round_def round_half_even_def)
  have "transaction_step default_config st_forced =
      Inr (emit_and_update st_forced default_config 0 True (100, 90, 10, ?X) (rng_of (sconst 0)))"
    by (simp add: transaction_step_def st_forced_def state_of_simps rng_of_simps fd fp)
  then show ?thesis
    by (simp add: emit_and_update_fields)
qed

lemma st_same_place_step:
  "\<exists>st' r. transaction_step default_config st_same_place = Inr st' \<and>
      stdout st' = stdout st_same_place @ [r] \<and> IsFraud r \<and> CardID r = 0 \<and>
      MerchantLatitude r = 60 \<and> MerchantLongitude r = 10 \<and> current_time st' = 6000000"
  by (simp add: st_same_place_def haversine_same total_seconds_def timedelta_def eval_defs)


text \<open>
  Claim C1, as the code has it. The delay is \<open>max(1, ...)\<close>: it is never shorter than
  one second. Here the card's last transaction and the new merchant are at the same
  place. All the conditions of the forcing hold, the required time is 0, and the clock is
  set one second after the last transaction: that is not the last timestamp plus the
  required time times a factor, and the velocity it implies is 0, not above the
  threshold.
\<close>

theorem forced_delay_is_clamped:
  "\<exists>st' r. transaction_step default_config st_same_place = Inr st' \<and>
      stdout st' = [r] \<and> IsFraud r \<and>
      LastTxTimestamp (cards_data st_same_place ! CardID r) = Some 5000000 \<and>
      LastTxLatitude (cards_data st_same_place ! CardID r) = Some 60 \<and>
      LastTxLongitude (cards_data st_same_place ! CardID r) = Some 10 \<and>
      0 < total_seconds (current_time st_same_place - 5000000) \<and>
      haversine 60 10 (MerchantLatitude r) (MerchantLongitude r)
        / total_seconds (current_time st_same_place - 5000000) * 3600
        < HIGH_VELOCITY_THRESHOLD_KMH default_config \<and>
      draws (rng st_same_place) !! 6 < 1 / 2 \<and>
      haversine 60 10 (MerchantLatitude r) (MerchantLongitude r)
        / HIGH_VELOCITY_THRESHOLD_KMH default_config * 3600 = 0 \<and>
      current_time st' = 5000000 + 1000000 \<and>
      \<not> HIGH_VELOCITY_THRESHOLD_KMH default_config
          < haversine 60 10 (MerchantLatitude r) (MerchantLongitude r)
              / total_seconds (current_time st' - 5000000) * 3600"
proof -
  from st_same_place_step obtain st' r where
    "transaction_step default_config st_same_place = Inr st' \<and>
      stdout st' = stdout st_same_place @ [r] \<and> IsFraud r \<and> CardID r = 0 \<and>
      MerchantLatitude r = 60 \<and> MerchantLongitude r = 10 \<and> current_time st' = 6000000"
    by (elim exE)
  then have s: "transaction_step default_config st_same_place = Inr st'"
    "stdout st' = stdout st_same_place @ [r]" "IsFraud r" "CardID r = 0"
    "MerchantLatitude r = 60" "MerchantLongitude r = 10" "current_time st' = 6000000"
    by simp_all
  have d: "draws (rng st_same_place) !! 6 < 1 / 2"
    by (simp add: st_same_place_def state_of_simps rng_of_simps snth_6)
  have c: "stdout st' = [r] \<and> IsFraud r \<and>
      LastTxTimestamp (cards_data st_same_place ! CardID r) = Some 5000000 \<and>
      LastTxLatitude (cards_data st_same_place ! CardID r) = Some 60 \<and>
      LastTxLongitude (cards_data st_same_place ! CardID r) = Some 10 \<and>
      0 < total_seconds (current_time st_same_place - 5000000) \<and>
      haversine 60 10 (MerchantLatitude r) (MerchantLongitude r)
        / total_seconds (current_time st_same_place - 5000000) * 3600
        < HIGH_VELOCITY_THRESHOLD_KMH default_config \<and>
      draws (rng st_same_place) !! 6 < 1 / 2 \<and>
      haversine 60 10 (MerchantLatitude r) (MerchantLongitude r)
        / HIGH_VELOCITY_THRESHOLD_KMH default_config * 3600 = 0 \<and>
      current_time st' = 5000000 + 1000000 \<and>
      \<not> HIGH_VELOCITY_THRESHOLD_KMH default_config
          < haversine 60 10 (MerchantLatitude r) (MerchantLongitude r)
              / total_seconds (current_time st' - 5000000) * 3600"
    using s(2-) d
    by (simp add: st_same_place_def state_of_simps used_card_simps default_config_simps
        haversine_same total_seconds_def)
  show ?thesis
  proof (intro exI)
    show "transaction_step default_config st_same_place = Inr st' \<and>
      stdout st' = [r] \<and> IsFraud r \<and>
      LastTxTimestamp (cards_data st_same_place ! CardID r) = Some 5000000 \<and>
      LastTxLatitude (cards_data st_same_place ! CardID r) = Some 60 \<and>
      LastTxLongitude (cards_data st_same_place ! CardID r) = Some 10 \<and>
      0 < total_seconds (current_time st_same_place - 5000000) \<and>
      haversine 60 10 (MerchantLatitude r) (MerchantLongitude r)
        / total_seconds (current_time st_same_place - 5000000) * 3600
        < HIGH_VELOCITY_THRESHOLD_KMH default_config \<and>
      draws (rng st_same_place) !! 6 < 1 / 2 \<and>
      haversine 60 10 (MerchantLatitude r) (MerchantLongitude r)
        / HIGH_VELOCITY_THRESHOLD_KMH default_config * 3600 = 0 \<and>
      current_time st' = 5000000 + 1000000 \<and>
      \<not> HIGH_VELOCITY_THRESHOLD_KMH default_config
          < haversine 60 10 (MerchantLatitude r) (MerchantLongitude r)
              / total_seconds (current_time st' - 5000000) * 3600"
      using s(1) c by (rule conjI)
  qed
qed

text \<open>
  Claim C1, amended. On the fraud path, when the chosen card has a last transaction
  (with a latitude other than 0), the elapsed time is positive, the implied velocity is
  below the threshold and the forcing draw is below \<open>1/2\<close>, the clock is set to the last
  timestamp plus \<open>max(1, required * factor)\<close> seconds, rounded to the microsecond, with
  \<open>factor\<close> in \<open>[0.5, 0.9)\<close>. Whenever that delay is not clamped, that is when
  \<open>required * factor\<close> is at least one second, the velocity between the last location
  and the new merchant over the new elapsed time is above the threshold. The forcing
  draw and the factor's draw are the seventh and the eighth draw of the step.
\<close>

theorem forced_clock_and_velocity:
  assumes step: "transaction_step cfg st = Inr st'"
    and out: "stdout st' = stdout st @ [r]"
    and fraud: "IsFraud r"
    and prior: "LastTxTimestamp (cards_data st ! CardID r) = Some last_ts"
      "LastTxLatitude (cards_data st ! CardID r) = Some last_lat" "last_lat \<noteq> 0"
      "LastTxLongitude (cards_data st ! CardID r) = Some last_lon"
    and elapsed: "0 < total_seconds (current_time st - last_ts)"
    and T: "0 < HIGH_VELOCITY_THRESHOLD_KMH cfg"
    and slow: "haversine last_lat last_lon (MerchantLatitude r) (MerchantLongitude r)
                 / total_seconds (current_time st - last_ts) * 3600
               < HIGH_VELOCITY_THRESHOLD_KMH cfg"
    and force: "draws (rng st) !! 6 < 1 / 2"
    and u: "0 \<le> draws (rng st) !! 7" "draws (rng st) !! 7 < 1"
  shows "let distance_km =
               haversine last_lat last_lon (MerchantLatitude r) (MerchantLongitude r);
             required_time_seconds = distance_km / HIGH_VELOCITY_THRESHOLD_KMH cfg * 3600;
             factor = 1 / 2 + 2 / 5 * (draws (rng st) !! 7)
         in current_time st' = last_ts + timedelta (max 1 (required_time_seconds * factor)) \<and>
            1 / 2 \<le> factor \<and> factor < 9 / 10 \<and>
            (1 \<le> required_time_seconds * factor \<longrightarrow>
               HIGH_VELOCITY_THRESHOLD_KMH cfg
                 < distance_km / total_seconds (current_time st' - last_ts) * 3600)"
proof -
  define distance_km where
    "distance_km = haversine last_lat last_lon (MerchantLatitude r) (MerchantLongitude r)"
  define required where "required = distance_km / HIGH_VELOCITY_THRESHOLD_KMH cfg * 3600"
  define factor where "factor = 1 / 2 + 2 / 5 * (draws (rng st) !! 7)"
  from transaction_step_InrD [OF step] obtain k g0 f g1 res g2 where
    rb: "randbelow (length (cards_data st)) (rng st) = (k, g0)"
    and fd: "fraud_decision cfg (cards_data st ! k) g0 = (f, g1)"
    and path: "(if f then fraud_path cfg (cards_data st ! k) (current_time st) g1
            else normal_path cfg (cards_data st ! k) (current_time st) g1) = (Inr res, g2)"
    and st': "st' = emit_and_update st cfg k f res g2"
    by blast
  obtain a la lo now where res: "res = (a, la, lo, now)"
    by (cases res)
  from out have r: "CardID r = k" "IsFraud r = f" "MerchantLatitude r = la"
    "MerchantLongitude r = lo"
    unfolding st' res by (auto simp: emit_and_update_fields)
  from fraud r have f: "f" by simp
  have g0: "g0 = (rng st)\<lparr>draws := stl (draws (rng st))\<rparr>"
    using randbelow_draws [OF rb] .
  have g1: "g1 = g0\<lparr>draws := stl (draws g0)\<rparr>"
    using fd f fraud_decision_True_draws [of cfg "cards_data st ! k" g0 g1] by simp
  from path f res have "fraud_path cfg (cards_data st ! k) (current_time st) g1
      = (Inr (a, la, lo, now), g2)"
    by simp
  from fraud_path_velocity_block [OF this]
  have vb: "velocity_block cfg (cards_data st ! k) (current_time st) la lo
      (g1\<lparr>draws := stl (stl (stl (stl (draws g1))))\<rparr>) = (Inr now, g2)" .
  let ?g = "g1\<lparr>draws := stl (stl (stl (stl (draws g1))))\<rparr>"
  have d6: "shd (draws ?g) = draws (rng st) !! 6"
    and d7: "shd (stl (draws ?g)) = draws (rng st) !! 7"
    by (simp_all add: g1 g0 snth_6 snth_7)
  have "velocity_block cfg (cards_data st ! k) (current_time st) la lo ?g =
     (Inr (last_ts + timedelta (max 1
        (haversine last_lat last_lon la lo / HIGH_VELOCITY_THRESHOLD_KMH cfg * 3600
           * (1 / 2 + 2 / 5 * shd (stl (draws ?g)))))),
      ?g\<lparr>draws := stl (stl (draws ?g))\<rparr>)"
    using prior elapsed slow force T unfolding r d6 [symmetric]
    by (intro velocity_block_forced) simp_all
  with vb have now: "now = last_ts + timedelta (max 1 (required * factor))"
    unfolding d7 required_def factor_def distance_km_def r by simp
  have clock: "current_time st' = now"
    unfolding st' res by (simp add: emit_and_update_fields)
  have fac: "1 / 2 \<le> factor" "factor < 9 / 10"
    using u by (simp_all add: factor_def)
  have vel: "HIGH_VELOCITY_THRESHOLD_KMH cfg
      < distance_km / total_seconds (current_time st' - last_ts) * 3600"
    if big: "1 \<le> required * factor"
  proof -
    have "max 1 (required * factor) = required * factor"
      using big by simp
    then have "current_time st' - last_ts = timedelta (required * factor)"
      using clock now by simp
    then show ?thesis
      using forced_velocity_arith [OF T fac, of distance_km] big
      by (simp add: required_def)
  qed
  from clock now fac vel show ?thesis
    unfolding Let_def distance_km_def [symmetric] required_def [symmetric] factor_def [symmetric]
    by simp
qed


theorem forced_clock_and_velocity_witness:
  "\<exists>st' r. transaction_step default_config st_forced = Inr st' \<and>
      stdout st' = stdout st_forced @ [r] \<and> IsFraud r \<and>
      1 \<le> haversine 30 10 (MerchantLatitude r) (MerchantLongitude r)
             / HIGH_VELOCITY_THRESHOLD_KMH default_config * 3600
             * (1 / 2 + 2 / 5 * (draws (rng st_forced) !! 7)) \<and>
      current_time st' = 0 + timedelta (max 1
         (haversine 30 10 (MerchantLatitude r) (MerchantLongitude r)
            / HIGH_VELOCITY_THRESHOLD_KMH default_config * 3600
            * (1 / 2 + 2 / 5 * (draws (rng st_forced) !! 7)))) \<and>
      HIGH_VELOCITY_THRESHOLD_KMH default_config
        < haversine 30 10 (MerchantLatitude r) (MerchantLongitude r)
            / total_seconds (current_time st' - 0) * 3600"
proof -
  from st_forced_step obtain st' r where
    "transaction_step default_config st_forced = Inr st' \<and>
      stdout st' = stdout st_forced @ [r] \<and> IsFraud r \<and> CardID r = 0 \<and>
      MerchantLatitude r = 90 \<and> MerchantLongitude r = 10"
    by (elim exE)
  then have s: "transaction_step default_config st_forced = Inr st'"
    "stdout st' = stdout st_forced @ [r]" "IsFraud r" "CardID r = 0"
    "MerchantLatitude r = 90" "MerchantLongitude r = 10"
    by simp_all
  have prior: "LastTxTimestamp (cards_data st_forced ! CardID r) = Some 0"
    "LastTxLatitude (cards_data st_forced ! CardID r) = Some 30" "(30::real) \<noteq> 0"
    "LastTxLongitude (cards_data st_forced ! CardID r) = Some 10"
    using s(4) by (simp_all add: st_forced_def state_of_simps used_card_simps)
  have now: "current_time st_forced = 50000000000"
    by (simp add: st_forced_def state_of_simps)
  have elapsed: "0 < total_seconds (current_time st_forced - 0)"
    by (simp add: now total_seconds_def)
  have T: "0 < HIGH_VELOCITY_THRESHOLD_KMH default_config"
    by (simp add: default_config_simps)
  have slow: "haversine 30 10 (MerchantLatitude r) (MerchantLongitude r)
      / total_seconds (current_time st_forced - 0) * 3600
      < HIGH_VELOCITY_THRESHOLD_KMH default_config"
    using forced_slow by (simp add: s now default_config_simps)
  have d: "draws (rng st_forced) !! 6 < 1 / 2" "0 \<le> draws (rng st_forced) !! 7"
    "draws (rng st_forced) !! 7 < 1" "draws (rng st_forced) !! 7 = 0"
    by (simp_all add: st_forced_def state_of_simps rng_of_simps snth_6 snth_7)
  have "6371 * 2 / 3 \<le> 6371 * pi / 3"
    using pi_ge_two by simp
  then have big: "1 \<le> haversine 30 10 (MerchantLatitude r) (MerchantLongitude r)
             / HIGH_VELOCITY_THRESHOLD_KMH default_config * 3600
             * (1 / 2 + 2 / 5 * (draws (rng st_forced) !! 7))"
    by (simp add: s d(4) haversine_30_90 default_config_simps)
  note th = forced_clock_and_velocity [OF s(1) s(2) s(3) prior elapsed T slow d(1) d(2) d(3),
      unfolded Let_def]
  have c1: "current_time st' = 0 + timedelta (max 1
         (haversine 30 10 (MerchantLatitude r) (MerchantLongitude r)
            / HIGH_VELOCITY_THRESHOLD_KMH default_config * 3600
            * (1 / 2 + 2 / 5 * (draws (rng st_forced) !! 7))))"
    using th by (rule conjunct1)
  have "1 \<le> haversine 30 10 (MerchantLatitude r) (MerchantLongitude r)
             / HIGH_VELOCITY_THRESHOLD_KMH default_config * 3600
             * (1 / 2 + 2 / 5 * (draws (rng st_forced) !! 7)) \<longrightarrow>
      HIGH_VELOCITY_THRESHOLD_KMH default_config
        < haversine 30 10 (MerchantLatitude r) (MerchantLongitude r)
            / total_seconds (current_time st' - 0) * 3600"
    using th by (rule conjunct2 [OF conjunct2 [OF conjunct2]])
  then have c2: "HIGH_VELOCITY_THRESHOLD_KMH default_config
        < haversine 30 10 (MerchantLatitude r) (MerchantLongitude r)
            / total_seconds (current_time st' - 0) * 3600"
    using big by (rule mp)
  show ?thesis
    by (intro exI [of _ st'] exI [of _ r] conjI s(1) s(2) s(3) big c1 c2)
qed

subsection \<open>The range of the sampled location\<close>

lemma round_half_even_le: "x \<le> of_int n \<Longrightarrow> round_half_even x \<le> n"
proof -
  assume "x \<le> of_int n"
  with round_half_even_bounds(1) [of x] have "of_int (round_half_even x) < (of_int (n + 1) :: real)"
    by simp
  then have "round_half_even x < n + 1"
    by (simp only: of_int_less_iff)
  then show ?thesis by simp
qed

lemma round_half_even_ge: "of_int n \<le> x \<Longrightarrow> n \<le> round_half_even x"
proof -
  assume "of_int n \<le> x"
  with round_half_even_bounds(2) [of x] have "(of_int (n - 1) :: real) < of_int (round_half_even x)"
    by simp
  then have "n - 1 < round_half_even x"
    by (simp only: of_int_less_iff)
  then show ?thesis by simp
qed

lemma py_round_6_le: "x \<le> of_int n \<Longrightarrow> py_round x 6 \<le> of_int n"
proof -
  assume "x \<le> of_int n"
  then have "x * 10 ^ 6 \<le> of_int (n * 10 ^ 6)"
    by simp
  then have "round_half_even (x * 10 ^ 6) \<le> n * 10 ^ 6"
    by (rule round_half_even_le)
  then have "(of_int (round_half_even (x * 10 ^ 6)) :: real) \<le> of_int (n * 10 ^ 6)"
    by (simp only: of_int_le_iff)
  then show ?thesis
    by (simp add: py_round_def field_simps)
qed

lemma py_round_6_ge: "of_int n \<le> x \<Longrightarrow> of_int n \<le> py_round x 6"
proof -
  assume "of_int n \<le> x"
  then have "of_int (n * 10 ^ 6) \<le> x * 10 ^ 6"
    by simp
  then have "n * 10 ^ 6 \<le> round_half_even (x * 10 ^ 6)"
    by (rule round_half_even_ge)
  then have "(of_int (n * 10 ^ 6) :: real) \<le> of_int (round_half_even (x * 10 ^ 6))"
    by (simp only: of_int_le_iff)
  then show ?thesis
    by (simp add: py_round_def field_simps)
qed

lemma py_mod_range: "0 < m \<Longrightarrow> 0 \<le> py_mod x m \<and> py_mod x m < m"
proof -
  assume m: "0 < m"
  have "of_int \<lfloor>x / m\<rfloor> \<le> x / m" "x / m < of_int \<lfloor>x / m\<rfloor> + 1"
    by linarith+
  then have "of_int \<lfloor>x / m\<rfloor> * m \<le> x" "x < (of_int \<lfloor>x / m\<rfloor> + 1) * m"
    using m by (simp_all only: pos_le_divide_eq pos_divide_less_eq)
  then show ?thesis
    by (simp add: py_mod_def algebra_simps)
qed

lemma generate_location_around_eq:
  "generate_location_around lat lon d g =
     (Inr (py_round (max (- 90) (min 90 (lat + (- (d / (1111 / 10))
              + (d / (1111 / 10) - - (d / (1111 / 10))) * shd (draws g))))) 6,
           py_round (py_mod (lon + (- (d / ((1111 / 10) * cos_degrees lat))
              + (d / ((1111 / 10) * cos_degrees lat) - - (d / ((1111 / 10) * cos_degrees lat)))
                * shd (stl (draws g))) + 180) 360 - 180) 6),
      g\<lparr>draws := stl (stl (draws g))\<rparr>)"
  by (simp add: generate_location_around_def py_div_def uniform_eq Let_def cos_degrees_nonzero)

lemma generate_location_around_Inr:
  assumes "cos (radians lat) \<noteq> 0"
  shows "generate_location_around lat lon d g =
     (Inr (py_round (max (- 90) (min 90 (lat + (- (d / (1111 / 10))
              + (d / (1111 / 10) - - (d / (1111 / 10))) * shd (draws g))))) 6,
           py_round (py_mod (lon + (- (d / ((1111 / 10) * cos (radians lat)))
              + (d / ((1111 / 10) * cos (radians lat)) - - (d / ((1111 / 10) * cos (radians lat))))
                * shd (stl (draws g))) + 180) 360 - 180) 6),
      g\<lparr>draws := stl (stl (draws g))\<rparr>)"
  using assms by (simp add: generate_location_around_def py_div_def uniform_eq Let_def cos_degrees_eq)

text \<open>
  Claim C5, as the code has it. The longitude is wrapped into \<open>[-180, 180)\<close> and
  rounded afterwards, and rounding can reach 180. From a home at latitude 60 and
  longitude -125, with a radius of 4444 km (both in the ranges the script draws from),
  an offset of -55.0000003 degrees wraps to 179.9999997, which rounds to 180.
\<close>

theorem longitude_rounds_to_180:
  "fst (generate_location_around 60 (- 125) 4444
          (rng_of (1 / 2 ## 249999997 / 1600000000 ## sconst 0))) = Inr (60, 180)"
  by (simp add: generate_location_around_def py_div_def cos_degrees_60 rng_of_simps Let_def
      py_round_def round_half_even_def py_mod_def)


text \<open>
  Claim C5, amended. For every latitude, longitude and distance, the poles included, the
  sampler returns a pair whose latitude is in \<open>[-90, 90]\<close> and whose longitude is in the
  closed interval \<open>[-180, 180]\<close>.
\<close>

theorem location_in_closed_range:
  "\<exists>la lo g'. generate_location_around lat lon d g = (Inr (la, lo), g') \<and>
      - 90 \<le> la \<and> la \<le> 90 \<and> - 180 \<le> lo \<and> lo \<le> 180"
proof -
  let ?x = "max (- 90) (min 90 (lat + (- (d / (1111 / 10))
              + (d / (1111 / 10) - - (d / (1111 / 10))) * shd (draws g))))"
  let ?y = "py_mod (lon + (- (d / ((1111 / 10) * cos_degrees lat))
              + (d / ((1111 / 10) * cos_degrees lat) - - (d / ((1111 / 10) * cos_degrees lat)))
                * shd (stl (draws g))) + 180) 360 - 180"
  have x: "of_int (- 90) \<le> ?x" "?x \<le> of_int 90"
    by simp_all
  have "0 \<le> ?y + 180 \<and> ?y + 180 < 360"
    using py_mod_range [of 360] by simp
  then have y: "of_int (- 180) \<le> ?y" "?y \<le> of_int 180"
    by simp_all
  have "of_int (- 90) \<le> py_round ?x 6" "py_round ?x 6 \<le> of_int 90"
    "of_int (- 180) \<le> py_round ?y 6" "py_round ?y 6 \<le> of_int 180"
    by (rule py_round_6_ge [OF x(1)], rule py_round_6_le [OF x(2)],
        rule py_round_6_ge [OF y(1)], rule py_round_6_le [OF y(2)])
  then show ?thesis
    unfolding generate_location_around_eq by simp
qed

subsection \<open>The first fraudulent transaction of a card\<close>

lemma sdrop_6: "sdrop 6 s = stl (stl (stl (stl (stl (stl s)))))"
  by (simp add: eval_nat_numeral)

lemma velocity_block_fresh:
  "LastTxTimestamp c = None \<Longrightarrow> velocity_block cfg c now la lo g = (Inr now, g)"
  by (simp add: velocity_block_def)

lemma init_first_fraud:
  "init_cards cfg_one (Suc 0) (rng_of (7 / 8 ## 0 ## 0 ## s)) =
     ([fresh_card 60 (- 125) True], rng_of s)"
  by (simp add: cfg_one_def new_card_def default_config_def rng_of_def fresh_card_def
      uniform_def random_def py_round_def round_half_even_def)

lemma st_first_fraud_step:
  "\<exists>st' r. transaction_step cfg_one st_first_fraud = Inr st' \<and>
      stdout st' = stdout st_first_fraud @ [r] \<and> IsFraud r \<and> CardID r = 0 \<and>
      MerchantLatitude r = 60 \<and> MerchantLongitude r = - 125 \<and> MerchantID r = 7750"
  by (simp add: st_first_fraud_def cfg_one_def eval_defs)

lemma increment_three_quarters:
  "fst (expovariate (1 / AVG_TRANSACTION_DELAY_SECONDS cfg_one) (rng_of (3 / 4 ## sconst 0)))
     = Inr (- ln (1 / 4) / 2)"
  by (simp add: expovariate_def random_def rng_of_def py_div_def cfg_one_def default_config_def)

lemma increment_three_quarters_ge:
  "t + 375000 \<le> generate_timestamp t (- ln (1 / 4) / 2)"
proof -
  have "ln (1 / 4) \<le> 1 / 4 - (1::real)"
    by (rule ln_le_minus_one) simp
  then have "of_int 375000 \<le> (- ln (1 / 4 :: real) / 2) * 1000000"
    by simp
  then have "375000 \<le> round_half_even ((- ln (1 / 4) / 2) * 1000000)"
    by (rule round_half_even_ge)
  then show ?thesis
    by (simp add: generate_timestamp_def timedelta_def)
qed

text \<open>
  Claim C4. The claim does not hold of the code: the exponential increment is the
  \<open>else\<close> of the test on the elapsed time alone. Whenever a step emits a fraudulent
  record for a card that has no transaction yet, the clock after the step is the clock
  before it and the record carries that time. No draw is taken for an increment either:
  after the card, the fraud decision, the amount, the distance and the two offsets of the
  location, six draws in all, the next draw is the one the merchant identifier is read
  from.
\<close>

theorem first_fraud_leaves_clock:
  assumes "transaction_step cfg st = Inr st'"
    and "stdout st' = stdout st @ [r]"
    and "IsFraud r"
    and "LastTxTimestamp (cards_data st ! CardID r) = None"
  shows "current_time st' = current_time st \<and>
         Timestamp r = strftime (current_time st) \<and>
         MerchantID r = fst (randint 1000 9999 ((rng st)\<lparr>draws := sdrop 6 (draws (rng st))\<rparr>))"
proof -
  from transaction_step_InrD [OF assms(1)] obtain k g0 f g1 res g2 where
    c: "randbelow (length (cards_data st)) (rng st) = (k, g0)"
    and fd: "fraud_decision cfg (cards_data st ! k) g0 = (f, g1)"
    and path: "(if f then fraud_path cfg (cards_data st ! k) (current_time st) g1
            else normal_path cfg (cards_data st ! k) (current_time st) g1) = (Inr res, g2)"
    and st': "st' = emit_and_update st cfg k f res g2"
    by blast
  obtain a la lo now where res: "res = (a, la, lo, now)"
    by (cases res)
  from assms(2) have r: "CardID r = k" "IsFraud r = f" "Timestamp r = strftime now"
    "MerchantID r = fst (randint 1000 9999 g2)"
    unfolding st' res by (auto simp: emit_and_update_fields)
  from r(2) assms(3) have f: "f" by simp
  have g0: "g0 = (rng st)\<lparr>draws := stl (draws (rng st))\<rparr>"
    using c by (rule randbelow_draws)
  have g1: "g1 = g0\<lparr>draws := stl (draws g0)\<rparr>"
    using fd f by (simp add: fraud_decision_True_draws)
  from path f res have "fraud_path cfg (cards_data st ! k) (current_time st) g1
      = (Inr (a, la, lo, now), g2)"
    by simp
  from fraud_path_velocity_block [OF this]
  have "velocity_block cfg (cards_data st ! k) (current_time st) la lo
      (g1\<lparr>draws := stl (stl (stl (stl (draws g1))))\<rparr>) = (Inr now, g2)" .
  with assms(4) r(1) have n: "now = current_time st"
    and g2: "g2 = g1\<lparr>draws := stl (stl (stl (stl (draws g1))))\<rparr>"
    by (simp_all add: velocity_block_fresh)
  have "g2 = (rng st)\<lparr>draws := sdrop 6 (draws (rng st))\<rparr>"
    unfolding g2 by (simp add: g1 g0 sdrop_6)
  with r(4) have m: "MerchantID r
      = fst (randint 1000 9999 ((rng st)\<lparr>draws := sdrop 6 (draws (rng st))\<rparr>))"
    by simp
  have "current_time st' = current_time st"
    unfolding st' res by (simp add: emit_and_update_fields n)
  with r(3) n m show ?thesis
    by simp
qed

text \<open>
  The run of one card and one transaction that reaches this case, with the default
  constants. The seventh draw of the step, \<open>3/4\<close>, would have given an increment of
  \<open>-ln(1/4) / 2\<close> seconds, more than 0.375 s, had it been read by
  \<open>random.expovariate\<close> as on the normal path; it gives the merchant identifier 7750
  instead, and the clock stays at the start time.
\<close>

theorem first_fraud_leaves_clock_witness:
  "\<exists>st' r. transaction_step cfg_one st_first_fraud = Inr st' \<and>
      simulate cfg_one (rng_of (7 / 8 ## 0 ## 0 ## draws (rng st_first_fraud)))
        1700000000000000 (sconst 0) = (st', None) \<and>
      stdout st' = stdout st_first_fraud @ [r] \<and> IsFraud r \<and>
      LastTxTimestamp (cards_data st_first_fraud ! CardID r) = None \<and>
      current_time st_first_fraud = 1700000000000000 \<and>
      current_time st' = 1700000000000000 \<and>
      Timestamp r = strftime 1700000000000000 \<and>
      draws (rng st_first_fraud) !! 6 = 3 / 4 \<and>
      MerchantID r = 7750 \<and>
      fst (expovariate (1 / AVG_TRANSACTION_DELAY_SECONDS cfg_one)
            ((rng st_first_fraud)\<lparr>draws := sdrop 6 (draws (rng st_first_fraud))\<rparr>))
        = Inr (- ln (1 / 4) / 2) \<and>
      1700000000000000 + 375000 \<le> generate_timestamp 1700000000000000 (- ln (1 / 4) / 2)"
proof -
  obtain st' r where s: "transaction_step cfg_one st_first_fraud = Inr st'"
    "stdout st' = stdout st_first_fraud @ [r]" "IsFraud r" "CardID r = 0" "MerchantID r = 7750"
    using st_first_fraud_step by blast
  have c: "LastTxTimestamp (cards_data st_first_fraud ! CardID r) = None"
    "current_time st_first_fraud = 1700000000000000"
    using s(4) by (simp_all add: st_first_fraud_def state_of_def fresh_card_def)
  have d: "draws (rng st_first_fraud) !! 6 = 3 / 4"
    by (simp add: st_first_fraud_def state_of_def rng_of_def snth_6)
  have g: "(rng st_first_fraud)\<lparr>draws := sdrop 6 (draws (rng st_first_fraud))\<rparr>
      = rng_of (3 / 4 ## sconst 0)"
    by (simp add: st_first_fraud_def state_of_def rng_of_def sdrop_6)
  have n: "nat (NUM_CARDS cfg_one) = Suc 0" "nat (NUM_TRANSACTIONS cfg_one) = Suc 0"
    by (simp_all add: cfg_one_def default_config_def)
  have i: "\<lparr> cards_data = [fresh_card 60 (- 125) True], current_time = 1700000000000000,
      rng = rng_of (draws (rng st_first_fraud)), uuids = sconst 0, stdout = [] \<rparr> = st_first_fraud"
    by (simp add: st_first_fraud_def state_of_def rng_of_def)
  have run: "simulate cfg_one (rng_of (7 / 8 ## 0 ## 0 ## draws (rng st_first_fraud)))
      1700000000000000 (sconst 0) = (st', None)"
    unfolding simulate_def n init_first_fraud by (simp add: i s(1))
  from first_fraud_leaves_clock [OF s(1) s(2) s(3) c(1)]
  have t: "current_time st' = current_time st_first_fraud"
    "Timestamp r = strftime (current_time st_first_fraud)"
    by simp_all
  have e: "fst (expovariate (1 / AVG_TRANSACTION_DELAY_SECONDS cfg_one)
            ((rng st_first_fraud)\<lparr>draws := sdrop 6 (draws (rng st_first_fraud))\<rparr>))
        = Inr (- ln (1 / 4) / 2)"
    unfolding g by (rule increment_three_quarters)
  have t1: "current_time st' = 1700000000000000" "Timestamp r = strftime 1700000000000000"
    using t c(2) by simp_all
  show ?thesis
    by (intro exI [of _ st'] exI [of _ r] conjI s(1) run s(2) s(3) c t1 d s(5) e
        increment_three_quarters_ge)
qed

subsection \<open>Two runs from one seed\<close>

lemma shift_card_fields:
  "HomeLatitude (shift_card d c) = HomeLatitude c"
  "HomeLongitude (shift_card d c) = HomeLongitude c"
  "IsCompromised (shift_card d c) = IsCompromised c"
  "LastTxTimestamp (shift_card d c) = map_option (\<lambda>t. t + d) (LastTxTimestamp c)"
  "LastTxLatitude (shift_card d c) = LastTxLatitude c"
  "LastTxLongitude (shift_card d c) = LastTxLongitude c"
  by (simp_all add: shift_card_def)

lemma velocity_block_shift:
  "velocity_block cfg (shift_card d c) (now + d) la lo g =
     (case velocity_block cfg c now la lo g of
        (Inl e, g') \<Rightarrow> (Inl e, g')
      | (Inr t, g') \<Rightarrow> (Inr (t + d), g'))"
  unfolding velocity_block_def shift_card_fields
  by (simp add: Let_def generate_timestamp_def split: option.splits prod.splits sum.splits)


lemma fraud_path_shift:
  "fraud_path cfg (shift_card d c) (now + d) g = shift_result d (fraud_path cfg c now g)"
  unfolding fraud_path_def shift_result_def shift_card_fields velocity_block_shift
  by (simp add: Let_def split: prod.splits sum.splits)

lemma normal_path_shift:
  "normal_path cfg (shift_card d c) (now + d) g = shift_result d (normal_path cfg c now g)"
  unfolding normal_path_def shift_result_def shift_card_fields
  by (simp add: Let_def generate_timestamp_def split: prod.splits sum.splits)

lemma fraud_decision_shift:
  "fraud_decision cfg (shift_card d c) g = fraud_decision cfg c g"
  by (simp add: fraud_decision_def shift_card_fields)

lemma shift_card_update:
  "shift_card d (c\<lparr> LastTxTimestamp := Some t, LastTxLatitude := Some la,
                       LastTxLongitude := Some lo \<rparr>) =
   (shift_card d c)\<lparr> LastTxTimestamp := Some (t + d), LastTxLatitude := Some la,
                       LastTxLongitude := Some lo \<rparr>"
  by (cases c) (simp add: shift_card_def)

lemma emit_and_update_shift:
  assumes "shifted d a b" and "k < length (cards_data a)"
  shows "shifted d (emit_and_update a cfg k f (x, la, lo, t) g)
                   (emit_and_update b cfg k f (x, la, lo, t + d) g)"
  using assms
  by (simp add: shifted_def emit_and_update_def Let_def seeded_fields_def shift_card_fields
      map_update shift_card_update split: prod.splits)

lemma transaction_step_shift:
  assumes "shifted d a b"
  shows "case transaction_step cfg a of
           Inl e \<Rightarrow> transaction_step cfg b = Inl e
         | Inr a' \<Rightarrow> (\<exists>b'. transaction_step cfg b = Inr b' \<and> shifted d a' b')"
proof (cases "cards_data a = []")
  case True
  with assms show ?thesis
    by (simp add: transaction_step_def shifted_def)
next
  case False
  obtain k g0 where rb: "randbelow (length (cards_data a)) (rng a) = (k, g0)"
    by (cases "randbelow (length (cards_data a)) (rng a)")
  from assms have eq: "cards_data b = map (shift_card d) (cards_data a)"
    "current_time b = current_time a + d" "rng b = rng a"
    by (simp_all add: shifted_def)
  show ?thesis
  proof (cases "k < length (cards_data a)")
    case out: False
    with False rb eq show ?thesis
      by (simp add: transaction_step_def)
  next
    case k: True
    obtain f g1 where fd: "fraud_decision cfg (cards_data a ! k) g0 = (f, g1)"
      by (cases "fraud_decision cfg (cards_data a ! k) g0")
    let ?pa = "if f then fraud_path cfg (cards_data a ! k) (current_time a) g1
               else normal_path cfg (cards_data a ! k) (current_time a) g1"
    let ?pb = "if f then fraud_path cfg (cards_data b ! k) (current_time b) g1
               else normal_path cfg (cards_data b ! k) (current_time b) g1"
    have pb: "?pb = shift_result d ?pa"
      using k by (simp add: eq fraud_path_shift normal_path_shift)
    have sa: "transaction_step cfg a =
        (case ?pa of (Inl e, g2) \<Rightarrow> Inl e
         | (Inr res, g2) \<Rightarrow> Inr (emit_and_update a cfg k f res g2))"
      using False rb k fd by (simp add: transaction_step_def)
    have sb: "transaction_step cfg b =
        (case ?pb of (Inl e, g2) \<Rightarrow> Inl e
         | (Inr res, g2) \<Rightarrow> Inr (emit_and_update b cfg k f res g2))"
      using False rb k fd by (simp add: transaction_step_def eq fraud_decision_shift)
    obtain r g2 where pa: "?pa = (r, g2)"
      by (cases ?pa)
    show ?thesis
    proof (cases r)
      case (Inl e)
      then show ?thesis
        unfolding sa sb pb pa by (simp add: shift_result_def)
    next
      case (Inr res)
      obtain x la lo t where res: "res = (x, la, lo, t)"
        by (cases res)
      show ?thesis
        unfolding sa sb pb pa Inr res
        using emit_and_update_shift [OF assms k] by (simp add: shift_result_def)
    qed
  qed
qed


lemma run_loop_shift:
  "shifted d a b \<Longrightarrow>
     \<exists>b'. run_loop cfg n b = (b', snd (run_loop cfg n a)) \<and> shifted d (fst (run_loop cfg n a)) b'"
proof (induction n arbitrary: a b)
  case 0
  then show ?case by simp
next
  case (Suc n)
  show ?case
  proof (cases "transaction_step cfg a")
    case (Inl e)
    with transaction_step_shift [OF Suc.prems, of cfg] have "transaction_step cfg b = Inl e"
      by simp
    with Inl Suc.prems show ?thesis by simp
  next
    case (Inr a')
    with transaction_step_shift [OF Suc.prems, of cfg] obtain b' where
      b': "transaction_step cfg b = Inr b'" "shifted d a' b'"
      by auto
    from Suc.IH [OF b'(2)] Inr b'(1) show ?thesis by simp
  qed
qed

lemma new_card_fresh: "new_card cfg g = (c, g') \<Longrightarrow> LastTxTimestamp c = None"
  by (auto simp: new_card_def Let_def split: prod.splits)

lemma init_cards_fresh:
  "init_cards cfg n g = (cs, g') \<Longrightarrow> \<forall>c \<in> set cs. LastTxTimestamp c = None"
proof (induction n arbitrary: g cs g')
  case 0
  then show ?case by simp
next
  case (Suc n)
  obtain c g1 where c: "new_card cfg g = (c, g1)" by (cases "new_card cfg g")
  obtain cs1 g2 where cs1: "init_cards cfg n g1 = (cs1, g2)" by (cases "init_cards cfg n g1")
  from Suc.IH [OF cs1] new_card_fresh [OF c] Suc.prems c cs1 show ?case
    by auto
qed

lemma shift_card_fresh: "LastTxTimestamp c = None \<Longrightarrow> shift_card d c = c"
  by (simp add: shift_card_def)

lemma transaction_step_ids:
  assumes "transaction_step cfg st = Inr st'"
  shows "map TransactionID (stdout st') @- uuids st' = map TransactionID (stdout st) @- uuids st"
proof -
  from transaction_step_InrD [OF assms] obtain k f res g2 where
    st': "st' = emit_and_update st cfg k f res g2"
    by blast
  obtain a la lo now where res: "res = (a, la, lo, now)"
    by (cases res)
  show ?thesis
    unfolding st' res by (simp add: emit_and_update_fields)
qed

lemma run_loop_ids:
  "run_loop cfg n st = (st', e) \<Longrightarrow>
     map TransactionID (stdout st') @- uuids st' = map TransactionID (stdout st) @- uuids st"
proof (induction n arbitrary: st)
  case 0
  then show ?case by simp
next
  case (Suc n)
  show ?case
  proof (cases "transaction_step cfg st")
    case (Inl err)
    with Suc.prems show ?thesis by simp
  next
    case (Inr st1)
    with Suc.prems have "run_loop cfg n st1 = (st', e)" by simp
    from Suc.IH [OF this] transaction_step_ids [OF Inr] show ?thesis by simp
  qed
qed

lemma simulate_ids:
  "map TransactionID (stdout (fst (simulate cfg g start ids))) =
     stake (length (stdout (fst (simulate cfg g start ids)))) ids"
proof -
  obtain cs g1 where i: "init_cards cfg (nat (NUM_CARDS cfg)) g = (cs, g1)"
    by (cases "init_cards cfg (nat (NUM_CARDS cfg)) g")
  let ?a = "\<lparr> cards_data = cs, current_time = start, rng = g1, uuids = ids, stdout = [] \<rparr>"
  obtain st e where r: "run_loop cfg (nat (NUM_TRANSACTIONS cfg)) ?a = (st, e)"
    by (cases "run_loop cfg (nat (NUM_TRANSACTIONS cfg)) ?a")
  from run_loop_ids [OF r] have "map TransactionID (stdout st) @- uuids st = ids"
    by simp
  then have "stake (length (map TransactionID (stdout st))) ids = map TransactionID (stdout st)"
    by (metis stake_shift append_Nil2 stake.simps(1) diff_self_eq_0 take_all order_refl)
  then show ?thesis
    by (simp add: simulate_def i r)
qed


text \<open>
  Claim C8, as the code has it. The seed fixes the draws of the module \<open>random\<close> only.
  The clock starts at the wall-clock time and the transaction identifiers come from
  \<open>uuid4\<close>: two runs of one card and one transaction from the same draws, started five
  seconds apart, print different timestamps.
\<close>

theorem same_seed_different_output:
  "map Timestamp (stdout (fst (simulate cfg_one (rng_of (7 / 8 ## sconst 0)) 0 (sconst 0)))) = [0] \<and>
   map Timestamp (stdout (fst (simulate cfg_one (rng_of (7 / 8 ## sconst 0)) 5000000 (sconst 1)))) = [5] \<and>
   stdout (fst (simulate cfg_one (rng_of (7 / 8 ## sconst 0)) 0 (sconst 0))) \<noteq>
   stdout (fst (simulate cfg_one (rng_of (7 / 8 ## sconst 0)) 5000000 (sconst 1)))"
proof -
  from first_fraud_run [of 0 "sconst 0"] obtain st1 where
    "simulate cfg_one (rng_of (7 / 8 ## sconst 0)) 0 (sconst 0) = (st1, None) \<and>
        map IsFraud (stdout st1) = [True] \<and>
        map Timestamp (stdout st1) = [strftime 0] \<and>
        current_time st1 = 0" ..
  then have a: "map Timestamp (stdout (fst (simulate cfg_one (rng_of (7 / 8 ## sconst 0)) 0 (sconst 0)))) = [0]"
    by (simp add: strftime_def)
  from first_fraud_run [of 5000000 "sconst 1"] obtain st2 where
    "simulate cfg_one (rng_of (7 / 8 ## sconst 0)) 5000000 (sconst 1) = (st2, None) \<and>
        map IsFraud (stdout st2) = [True] \<and>
        map Timestamp (stdout st2) = [strftime 5000000] \<and>
        current_time st2 = 5000000" ..
  then have b: "map Timestamp (stdout (fst (simulate cfg_one (rng_of (7 / 8 ## sconst 0)) 5000000 (sconst 1)))) = [5]"
    by (simp add: strftime_def)
  from a b have "stdout (fst (simulate cfg_one (rng_of (7 / 8 ## sconst 0)) 0 (sconst 0))) \<noteq>
   stdout (fst (simulate cfg_one (rng_of (7 / 8 ## sconst 0)) 5000000 (sconst 1)))"
    by (metis list.inject numeral_eq_iff zero_neq_numeral)
  with a b show ?thesis
    by (intro conjI)
qed


text \<open>
  Claim C8, amended. Two runs with the same configuration and the same draws, whatever
  their start times and their identifiers: they end the same way (normally, or with the
  same exception), they print the same number of records, and the records agree, in
  order, on every field but \<open>TransactionID\<close> and \<open>Timestamp\<close>. The clocks of the two
  runs differ by the difference of the start times, and the transaction identifiers of
  each run are the first values its \<open>uuid4\<close> returns.
\<close>

theorem seeded_runs_agree:
  "snd (simulate cfg g start2 ids2) = snd (simulate cfg g start1 ids1) \<and>
   map seeded_fields (stdout (fst (simulate cfg g start2 ids2))) =
     map seeded_fields (stdout (fst (simulate cfg g start1 ids1))) \<and>
   current_time (fst (simulate cfg g start2 ids2)) =
     current_time (fst (simulate cfg g start1 ids1)) + (start2 - start1) \<and>
   map TransactionID (stdout (fst (simulate cfg g start1 ids1))) =
     stake (length (stdout (fst (simulate cfg g start1 ids1)))) ids1 \<and>
   map TransactionID (stdout (fst (simulate cfg g start2 ids2))) =
     stake (length (stdout (fst (simulate cfg g start2 ids2)))) ids2"
proof -
  obtain cs g1 where i: "init_cards cfg (nat (NUM_CARDS cfg)) g = (cs, g1)"
    by (cases "init_cards cfg (nat (NUM_CARDS cfg)) g")
  let ?a = "\<lparr> cards_data = cs, current_time = start1, rng = g1, uuids = ids1, stdout = [] \<rparr>"
  let ?b = "\<lparr> cards_data = cs, current_time = start2, rng = g1, uuids = ids2, stdout = [] \<rparr>"
  have "map (shift_card (start2 - start1)) cs = cs"
    using init_cards_fresh [OF i] by (simp add: shift_card_fresh map_idI)
  then have "shifted (start2 - start1) ?a ?b"
    by (simp add: shifted_def)
  from run_loop_shift [OF this, of cfg "nat (NUM_TRANSACTIONS cfg)"] obtain b' where
    b': "run_loop cfg (nat (NUM_TRANSACTIONS cfg)) ?b =
           (b', snd (run_loop cfg (nat (NUM_TRANSACTIONS cfg)) ?a))"
    "shifted (start2 - start1) (fst (run_loop cfg (nat (NUM_TRANSACTIONS cfg)) ?a)) b'"
    by blast
  have sa: "simulate cfg g start1 ids1 = run_loop cfg (nat (NUM_TRANSACTIONS cfg)) ?a"
    and sb: "simulate cfg g start2 ids2 = run_loop cfg (nat (NUM_TRANSACTIONS cfg)) ?b"
    by (simp_all add: simulate_def i)
  from b' have "snd (simulate cfg g start2 ids2) = snd (simulate cfg g start1 ids1)"
    "map seeded_fields (stdout (fst (simulate cfg g start2 ids2))) =
       map seeded_fields (stdout (fst (simulate cfg g start1 ids1)))"
    "current_time (fst (simulate cfg g start2 ids2)) =
       current_time (fst (simulate cfg g start1 ids1)) + (start2 - start1)"
    unfolding sa sb by (simp_all add: shifted_def)
  then show ?thesis
    by (intro conjI simulate_ids)
qed

subsection \<open>Draws and homes along a run\<close>

lemma advanced_refl: "advanced g g"
  unfolding advanced_def by (rule exI [of _ 0]) simp

lemma advanced_trans: "advanced g g1 \<Longrightarrow> advanced g1 g2 \<Longrightarrow> advanced g g2"
  unfolding advanced_def by (metis sdrop_add)

lemma advanced_stl: "draws g' = stl (draws g) \<Longrightarrow> advanced g g'"
  unfolding advanced_def by (rule exI [of _ 1]) simp

lemma advanced_valid: "advanced g g' \<Longrightarrow> valid_draws (draws g) \<Longrightarrow> valid_draws (draws g')"
  unfolding advanced_def valid_draws_def by (auto simp: sdrop_snth)

lemma random_advanced: "random g = (u, g') \<Longrightarrow> advanced g g'"
  by (rule advanced_stl) (auto simp: random_def)

lemma uniform_advanced: "uniform a b g = (x, g') \<Longrightarrow> advanced g g'"
  by (rule advanced_stl) (auto simp: uniform_eq)

lemma expovariate_advanced: "expovariate l g = (x, g') \<Longrightarrow> advanced g g'"
  by (rule advanced_stl) (auto simp: expovariate_def random_def)

lemma randbelow_advanced: "randbelow n g = (k, g') \<Longrightarrow> advanced g g'"
  by (rule advanced_stl) (auto simp: randbelow_def random_def)

lemma randint_advanced: "randint a b g = (k, g') \<Longrightarrow> advanced g g'"
  by (rule advanced_stl) (auto simp: randint_def randbelow_def random_def)

lemma gauss_advanced: "gauss mu sigma g = (x, g') \<Longrightarrow> advanced g g'"
proof (cases "gauss_next g")
  case None
  assume "gauss mu sigma g = (x, g')"
  with None have "draws g' = stl (stl (draws g))"
    by (auto simp: gauss_def random_def Let_def)
  then have "draws g' = sdrop 2 (draws g)"
    by (simp add: numeral_2_eq_2)
  then show ?thesis
    unfolding advanced_def by blast
next
  case (Some z)
  assume "gauss mu sigma g = (x, g')"
  with Some have "draws g' = draws g"
    by (auto simp: gauss_def)
  then have "draws g' = sdrop 0 (draws g)" by simp
  then show ?thesis
    unfolding advanced_def by blast
qed

lemma fraud_decision_advanced: "fraud_decision cfg c g = (f, g') \<Longrightarrow> advanced g g'"
  by (auto simp: fraud_decision_def advanced_refl split: if_splits prod.splits
      dest: random_advanced)

lemma generate_location_around_advanced:
  "generate_location_around lat lon d g = (x, g') \<Longrightarrow> advanced g g'"
proof -
  assume "generate_location_around lat lon d g = (x, g')"
  then have "draws g' = stl (stl (draws g))"
    by (auto simp: generate_location_around_eq)
  then have "draws g' = sdrop 2 (draws g)"
    by (simp add: numeral_2_eq_2)
  then show ?thesis
    unfolding advanced_def by blast
qed

lemma velocity_block_advanced:
  "velocity_block cfg c now la lo g = (x, g') \<Longrightarrow> advanced g g'"
  unfolding velocity_block_def
  by (auto simp: Let_def advanced_refl split: option.splits if_splits prod.splits sum.splits
      intro: advanced_trans dest: random_advanced uniform_advanced expovariate_advanced)


lemma fraud_path_advanced: "fraud_path cfg c now g = (x, g') \<Longrightarrow> advanced g g'"
proof -
  assume a: "fraud_path cfg c now g = (x, g')"
  obtain a1 g1 where u1: "uniform (fst (FRAUD_AMOUNT_RANGE cfg)) (snd (FRAUD_AMOUNT_RANGE cfg)) g
      = (a1, g1)" by (cases "uniform (fst (FRAUD_AMOUNT_RANGE cfg)) (snd (FRAUD_AMOUNT_RANGE cfg)) g")
  obtain d g2 where u2: "uniform (LOCATION_VARIATION_KM_NORMAL cfg * 2)
      (LOCATION_VARIATION_KM_FRAUD cfg) g1 = (d, g2)"
    by (cases "uniform (LOCATION_VARIATION_KM_NORMAL cfg * 2) (LOCATION_VARIATION_KM_FRAUD cfg) g1")
  obtain y g3 where gl: "generate_location_around (HomeLatitude c) (HomeLongitude c) d g2 = (y, g3)"
    by (cases "generate_location_around (HomeLatitude c) (HomeLongitude c) d g2")
  have g3: "advanced g g3"
    using uniform_advanced [OF u1] uniform_advanced [OF u2]
      generate_location_around_advanced [OF gl] advanced_trans by blast
  show ?thesis
  proof (cases y)
    case (Inl e)
    with a u1 u2 gl have "g' = g3"
      by (simp add: fraud_path_def)
    with g3 show ?thesis by simp
  next
    case (Inr p)
    obtain la lo where p: "p = (la, lo)" by (cases p)
    obtain z g4 where vb: "velocity_block cfg c now la lo g3 = (z, g4)"
      by (cases "velocity_block cfg c now la lo g3")
    from a u1 u2 gl Inr p vb have "g' = g4"
      by (cases z) (simp_all add: fraud_path_def)
    with g3 velocity_block_advanced [OF vb] advanced_trans show ?thesis by blast
  qed
qed

lemma normal_path_advanced: "normal_path cfg c now g = (x, g') \<Longrightarrow> advanced g g'"
proof -
  assume a: "normal_path cfg c now g = (x, g')"
  obtain a1 g1 where u1: "uniform (fst (NORMAL_AMOUNT_RANGE cfg)) (snd (NORMAL_AMOUNT_RANGE cfg)) g
      = (a1, g1)" by (cases "uniform (fst (NORMAL_AMOUNT_RANGE cfg)) (snd (NORMAL_AMOUNT_RANGE cfg)) g")
  obtain d g2 where u2: "uniform 0 (LOCATION_VARIATION_KM_NORMAL cfg) g1 = (d, g2)"
    by (cases "uniform 0 (LOCATION_VARIATION_KM_NORMAL cfg) g1")
  obtain y g3 where gl: "generate_location_around (HomeLatitude c) (HomeLongitude c) d g2 = (y, g3)"
    by (cases "generate_location_around (HomeLatitude c) (HomeLongitude c) d g2")
  have g3: "advanced g g3"
    using uniform_advanced [OF u1] uniform_advanced [OF u2]
      generate_location_around_advanced [OF gl] advanced_trans by blast
  show ?thesis
  proof (cases y)
    case (Inl e)
    with a u1 u2 gl have "g' = g3"
      by (simp add: normal_path_def)
    with g3 show ?thesis by simp
  next
    case (Inr p)
    obtain la lo where p: "p = (la, lo)" by (cases p)
    show ?thesis
    proof (cases "AVG_TRANSACTION_DELAY_SECONDS cfg = 0")
      case True
      with a u1 u2 gl Inr p have "g' = g3"
        by (simp add: normal_path_def py_div_def)
      with g3 show ?thesis by simp
    next
      case False
      obtain z g4 where ex: "expovariate (1 / AVG_TRANSACTION_DELAY_SECONDS cfg) g3 = (z, g4)"
        by (cases "expovariate (1 / AVG_TRANSACTION_DELAY_SECONDS cfg) g3")
      from a u1 u2 gl Inr p False ex have "g' = g4"
        by (cases z) (simp_all add: normal_path_def py_div_def)
      with g3 expovariate_advanced [OF ex] advanced_trans show ?thesis by blast
    qed
  qed
qed

lemma emit_and_update_advanced: "advanced g (rng (emit_and_update st cfg k f res g))"
proof -
  obtain a la lo now where res: "res = (a, la, lo, now)" by (cases res)
  obtain m g3 where ri: "randint 1000 9999 g = (m, g3)" by (cases "randint 1000 9999 g")
  obtain x g4 where ga: "gauss (AVG_TRANSACTION_DELAY_SECONDS cfg)
      (AVG_TRANSACTION_DELAY_SECONDS cfg / 3) g3 = (x, g4)"
    by (cases "gauss (AVG_TRANSACTION_DELAY_SECONDS cfg) (AVG_TRANSACTION_DELAY_SECONDS cfg / 3) g3")
  have "rng (emit_and_update st cfg k f res g) = g4"
    by (simp add: emit_and_update_def res ri ga Let_def)
  with randint_advanced [OF ri] gauss_advanced [OF ga] advanced_trans show ?thesis
    by metis
qed

lemma transaction_step_advanced:
  assumes "transaction_step cfg st = Inr st'"
  shows "advanced (rng st) (rng st')"
proof -
  from transaction_step_InrD [OF assms] obtain k g0 f g1 res g2 where
    rb: "randbelow (length (cards_data st)) (rng st) = (k, g0)"
    and fd: "fraud_decision cfg (cards_data st ! k) g0 = (f, g1)"
    and path: "(if f then fraud_path cfg (cards_data st ! k) (current_time st) g1
            else normal_path cfg (cards_data st ! k) (current_time st) g1) = (Inr res, g2)"
    and st': "st' = emit_and_update st cfg k f res g2"
    by blast
  have "advanced g1 g2"
    using path fraud_path_advanced normal_path_advanced by (cases f) auto
  with randbelow_advanced [OF rb] fraud_decision_advanced [OF fd]
    emit_and_update_advanced [of g2 st cfg k f res] advanced_trans
  show ?thesis
    unfolding st' by metis
qed

lemma transaction_step_homes:
  assumes "transaction_step cfg st = Inr st'"
  shows "map HomeLatitude (cards_data st') = map HomeLatitude (cards_data st) \<and>
         map HomeLongitude (cards_data st') = map HomeLongitude (cards_data st)"
proof -
  from transaction_step_InrD [OF assms] obtain k g0 f g1 res g2 where
    k: "k < length (cards_data st)" and st': "st' = emit_and_update st cfg k f res g2"
    by blast
  obtain a la lo now where res: "res = (a, la, lo, now)"
    by (cases res)
  show ?thesis
    unfolding st' res using k
    by (simp add: emit_and_update_fields map_update list_update_same_conv)
qed

lemma population_ok_maps:
  "map HomeLatitude cs' = map HomeLatitude cs \<Longrightarrow> map HomeLongitude cs' = map HomeLongitude cs
     \<Longrightarrow> population_ok cs \<Longrightarrow> population_ok cs'"
proof -
  assume a: "map HomeLatitude cs' = map HomeLatitude cs"
    and b: "map HomeLongitude cs' = map HomeLongitude cs" and ok: "population_ok cs"
  show "population_ok cs'"
    unfolding population_ok_def
  proof
    fix c assume "c \<in> set cs'"
    then obtain i where i: "i < length cs'" "cs' ! i = c"
      by (auto simp: in_set_conv_nth)
    from a have len: "length cs' = length cs" by (metis length_map)
    from a i len have la: "HomeLatitude c = HomeLatitude (cs ! i)" by (metis nth_map)
    from b i len have lo: "HomeLongitude c = HomeLongitude (cs ! i)" by (metis nth_map)
    from i len have "cs ! i \<in> set cs" by simp
    with ok la lo show "25 \<le> HomeLatitude c \<and> HomeLatitude c \<le> 65 \<and>
        - 125 \<le> HomeLongitude c \<and> HomeLongitude c \<le> 40"
      by (simp add: population_ok_def)
  qed
qed

subsection \<open>Bounds on the trigonometric functions\<close>

lemma sin_ge_cubic: "0 \<le> (x::real) \<Longrightarrow> x - x ^ 3 / 6 \<le> sin x"
proof -
  assume x: "0 \<le> x"
  have "(\<Sum>m<3. sin_coeff m * x ^ m) = x"
    by (simp add: sin_coeff_def numeral_3_eq_3)
  with Maclaurin_sin_bound [of x 3] have "\<bar>sin x - x\<bar> \<le> inverse (fact 3) * \<bar>x\<bar> ^ 3"
    by simp
  moreover have "inverse (fact 3) * \<bar>x\<bar> ^ 3 = x ^ 3 / 6"
    using x by (simp add: fact_numeral)
  ultimately show ?thesis
    by linarith
qed

lemma pi_le_315: "pi \<le> 63 / 20"
proof -
  define x where "x = pi / 6"
  have x0: "0 \<le> x"
    by (simp add: x_def)
  have s: "x - x ^ 3 / 6 \<le> 1 / 2"
    using sin_ge_cubic [OF x0] by (simp add: x_def sin_30)
  have b0: "x \<le> 2 / 3"
    using pi_less_4 by (simp add: x_def)
  have "x ^ 3 \<le> (2 / 3) ^ 3"
    using b0 x0 by (rule power_mono)
  with s have b1: "x \<le> 11 / 20"
    by (simp add: power3_eq_cube)
  have "x ^ 3 \<le> (11 / 20) ^ 3"
    using b1 x0 by (rule power_mono)
  with s have b2: "x \<le> 66 / 125"
    by (simp add: power3_eq_cube)
  have "x ^ 3 \<le> (66 / 125) ^ 3"
    using b2 x0 by (rule power_mono)
  with s have b3: "x \<le> 21 / 40"
    by (simp add: power3_eq_cube)
  then show ?thesis
    by (simp add: x_def)
qed

lemma cos_ge_quadratic: "1 - (x::real)\<^sup>2 / 2 \<le> cos x"
proof -
  have "\<bar>sin (x / 2)\<bar> \<le> \<bar>x / 2\<bar>"
    by (rule abs_sin_x_le_abs_x)
  then have "(sin (x / 2))\<^sup>2 \<le> (x / 2)\<^sup>2"
    by (simp only: abs_le_square_iff)
  moreover have "cos x = 1 - 2 * (sin (x / 2))\<^sup>2"
    using cos_double_sin [of "x / 2"] by simp
  ultimately show ?thesis
    by (simp add: power2_eq_square)
qed

lemma sin_sq_le: "(sin (x::real))\<^sup>2 \<le> x\<^sup>2"
  using abs_sin_x_le_abs_x [of x] by (simp only: abs_le_square_iff)

lemma cos_lipschitz: "cos (y::real) \<le> cos x + \<bar>y - x\<bar>"
proof -
  have e: "cos y - cos x = 2 * sin ((y + x) / 2) * sin ((x - y) / 2)"
    by (rule cos_diff_cos)
  have s1: "\<bar>sin ((y + x) / 2)\<bar> \<le> 1"
    by simp
  have s2: "\<bar>sin ((x - y) / 2)\<bar> \<le> \<bar>(x - y) / 2\<bar>"
    by (rule abs_sin_x_le_abs_x)
  have "\<bar>cos y - cos x\<bar> = 2 * (\<bar>sin ((y + x) / 2)\<bar> * \<bar>sin ((x - y) / 2)\<bar>)"
    unfolding e by (simp add: abs_mult)
  also have "\<dots> \<le> 2 * (1 * \<bar>(x - y) / 2\<bar>)"
    using s1 s2 by (intro mult_left_mono mult_mono) simp_all
  also have "\<dots> = \<bar>y - x\<bar>"
    by (simp add: abs_minus_commute)
  finally show ?thesis
    by linarith
qed

lemma pi_ge_3: "3 \<le> pi"
proof -
  have "sin (pi / 6) \<le> pi / 6"
    by (rule sin_x_le_x) simp
  then show ?thesis
    by (simp add: sin_30)
qed

lemma sqrt2_ge: "14 / 10 \<le> sqrt 2"
  by (rule real_le_rsqrt) (simp add: power2_eq_square)

lemma sqrt3_ge: "17 / 10 \<le> sqrt 3"
  by (rule real_le_rsqrt) (simp add: power2_eq_square)

lemma cos_75: "cos (5 * pi / 12) = sqrt 2 / 2 * (sqrt 3 / 2) - sqrt 2 / 2 * (1 / 2)"
proof -
  have "5 * pi / 12 = pi / 4 + pi / 6"
    by simp
  then show ?thesis
    by (simp only: cos_add cos_45 sin_45 cos_30 sin_30)
qed

lemma cos_75_ge: "6 / 25 \<le> cos (5 * pi / 12)"
proof -
  have "sqrt 2 / 2 * (sqrt 3 / 2) - sqrt 2 / 2 * (1 / 2) = sqrt 2 * (sqrt 3 - 1) / 4"
    by (simp add: algebra_simps)
  moreover have "14 / 10 * (17 / 10 - 1) \<le> sqrt 2 * (sqrt 3 - 1)"
    using sqrt2_ge sqrt3_ge by (intro mult_mono) simp_all
  ultimately show ?thesis
    unfolding cos_75 by simp
qed

lemma haversine_eq:
  "haversine lat1 lon1 lat2 lon2 =
     6371 * (2 * atan2 (sqrt (haversine_a lat1 lon1 lat2 lon2))
                       (sqrt (1 - haversine_a lat1 lon1 lat2 lon2)))"
  by (simp add: haversine_def haversine_a_def Let_def)

lemma one_lt_half_pi: "1 < pi / 2"
  using pi_ge_3 by simp

lemma tan_ge_cubic:
  fixes x :: real
  assumes "0 \<le> x" and "x \<le> 1"
  shows "x - x ^ 3 / 6 \<le> tan x"
proof -
  have xp: "x < pi / 2" "- (pi / 2) < x" "x \<le> pi"
    using assms one_lt_half_pi by simp_all
  have c: "0 < cos x" "cos x \<le> 1"
    using cos_gt_zero_pi [OF xp(2) xp(1)] by simp_all
  have s: "0 \<le> sin x"
    using assms(1) xp(3) by (rule sin_ge_zero)
  have "sin x * cos x \<le> sin x * 1"
    using c(2) s by (rule mult_left_mono)
  then have "sin x \<le> sin x / cos x"
    using c(1) by (simp add: pos_le_divide_eq)
  with sin_ge_cubic [OF assms(1)] show ?thesis
    by (simp add: tan_def)
qed

lemma tan_le_rational:
  fixes x :: real
  assumes "0 \<le> x" and "x \<le> 1"
  shows "tan x \<le> x / (1 - x\<^sup>2 / 2)"
proof -
  have "x\<^sup>2 \<le> 1"
    using assms by (rule power_le_one)
  then have d: "0 < 1 - x\<^sup>2 / 2"
    by simp
  have c: "1 - x\<^sup>2 / 2 \<le> cos x"
    by (rule cos_ge_quadratic)
  have s: "sin x \<le> x"
    using assms(1) by (rule sin_x_le_x)
  have xp: "x \<le> pi"
    using assms one_lt_half_pi by simp
  have s0: "0 \<le> sin x"
    using assms(1) xp by (rule sin_ge_zero)
  have "sin x / cos x \<le> x / (1 - x\<^sup>2 / 2)"
    using s0 s d c by (intro frac_le) simp_all
  then show ?thesis
    by (simp add: tan_def)
qed

lemma atan2_sqrt_le:
  assumes a: "0 \<le> a" "a < 1" and q: "0 \<le> q" "a \<le> q\<^sup>2 * (1 - a)"
    and t: "q \<le> tan x" "0 \<le> x" "x \<le> 1"
  shows "atan2 (sqrt a) (sqrt (1 - a)) \<le> x"
proof -
  have pos: "0 < sqrt (1 - a)"
    using a by simp
  then have e: "atan2 (sqrt a) (sqrt (1 - a)) = arctan (sqrt a / sqrt (1 - a))"
    by (simp add: atan2_def)
  have "a / (1 - a) \<le> q\<^sup>2"
    using a q(2) by (simp add: pos_divide_le_eq)
  then have "sqrt (a / (1 - a)) \<le> q"
    using q(1) by (intro real_le_lsqrt) simp_all
  then have "sqrt a / sqrt (1 - a) \<le> tan x"
    using t(1) by (simp add: real_sqrt_divide)
  then have "arctan (sqrt a / sqrt (1 - a)) \<le> arctan (tan x)"
    by (rule arctan_monotone')
  moreover have "arctan (tan x) = x"
    using t one_lt_half_pi by (intro arctan_tan) simp_all
  ultimately show ?thesis
    unfolding e by simp
qed

lemma atan2_sqrt_ge:
  assumes a: "0 \<le> a" "a < 1" and q: "0 \<le> q" "q\<^sup>2 \<le> a"
    and t: "tan x \<le> q" "0 \<le> x" "x \<le> 1"
  shows "x \<le> atan2 (sqrt a) (sqrt (1 - a))"
proof -
  have pos: "0 < sqrt (1 - a)" "sqrt (1 - a) \<le> 1"
    using a by simp_all
  then have e: "atan2 (sqrt a) (sqrt (1 - a)) = arctan (sqrt a / sqrt (1 - a))"
    by (simp add: atan2_def)
  have "q \<le> sqrt a"
    using q by (intro real_le_rsqrt) simp_all
  moreover have "sqrt a * sqrt (1 - a) \<le> sqrt a * 1"
    using pos(2) by (intro mult_left_mono) simp_all
  then have "sqrt a \<le> sqrt a / sqrt (1 - a)"
    using pos(1) by (simp add: pos_le_divide_eq)
  ultimately have "tan x \<le> sqrt a / sqrt (1 - a)"
    using t(1) by simp
  then have "arctan (tan x) \<le> arctan (sqrt a / sqrt (1 - a))"
    by (rule arctan_monotone')
  moreover have "arctan (tan x) = x"
    using t one_lt_half_pi by (intro arctan_tan) simp_all
  ultimately show ?thesis
    unfolding e by simp
qed

subsection \<open>Normal transactions stay in the box\<close>

lemma cos_radians_ge:
  assumes "0 \<le> lat" and "lat \<le> 75"
  shows "6 / 25 \<le> cos (radians lat)"
proof -
  have "0 \<le> radians lat"
    using assms(1) by (simp add: radians_def)
  moreover have "radians lat \<le> 5 * pi / 12"
    using assms(2) by (simp add: radians_def)
  moreover have "5 * pi / 12 \<le> pi"
    by simp
  ultimately have "cos (5 * pi / 12) \<le> cos (radians lat)"
    by (rule cos_monotone_0_pi_le)
  with cos_75_ge show ?thesis
    by simp
qed

lemma py_round_6_near: "\<bar>py_round x 6 - x\<bar> \<le> 1 / 2000000"
proof -
  define n where "n = round_half_even (x * 10 ^ 6)"
  define y where "y = x * 10 ^ 6"
  have "of_int n \<le> y + 1 / 2" "y - 1 / 2 \<le> of_int n"
    unfolding n_def y_def by (rule round_half_even_bounds)+
  then have "\<bar>of_int n - y\<bar> \<le> 1 / 2"
    by (intro abs_leI) linarith+
  then have le: "\<bar>of_int n - y\<bar> / 10 ^ 6 \<le> (1 / 2) / 10 ^ 6"
    by (rule divide_right_mono) simp
  have e: "py_round x 6 - x = (of_int n - y) / 10 ^ 6"
    by (simp add: py_round_def n_def y_def diff_divide_distrib)
  have "\<bar>(of_int n - y) / 10 ^ 6\<bar> = \<bar>of_int n - y\<bar> / 10 ^ 6"
    by (simp only: abs_divide) simp
  then have "\<bar>py_round x 6 - x\<bar> = \<bar>of_int n - y\<bar> / 10 ^ 6"
    by (simp only: e)
  also note le
  finally show ?thesis
    by simp
qed

lemma py_mod_id: "0 \<le> x \<Longrightarrow> x < m \<Longrightarrow> py_mod x m = x"
proof -
  assume a: "0 \<le> x" "x < m"
  then have "0 \<le> x / m" "x / m < 1"
    by simp_all
  then have "\<lfloor>x / m\<rfloor> = 0"
    by (simp add: floor_eq_iff)
  then show ?thesis
    by (simp add: py_mod_def)
qed


lemma uniform_offset_abs:
  fixes rho u :: real
  assumes "0 \<le> rho" and "0 \<le> u" and "u < 1"
  shows "\<bar>- rho + (rho - - rho) * u\<bar> \<le> rho"
proof -
  have "0 \<le> rho * u"
    using assms by simp
  moreover have "rho * u \<le> rho"
    using assms by (simp add: mult_left_le)
  ultimately show ?thesis
    by (intro abs_leI) (simp_all add: algebra_simps)
qed

lemma location_box:
  assumes lat: "25 \<le> lat" "lat \<le> 65" and lon: "- 125 \<le> lon" "lon \<le> 40"
    and d: "0 \<le> d" "d \<le> 1000"
    and u1: "0 \<le> shd (draws g)" "shd (draws g) < 1"
    and u2: "0 \<le> shd (stl (draws g))" "shd (stl (draws g)) < 1"
    and gl: "generate_location_around lat lon d g = (Inr (la, lo), g')"
  shows "\<bar>la - lat\<bar> \<le> d / (1111 / 10) + 1 / 2000000 \<and>
         \<bar>lo - lon\<bar> \<le> d / ((1111 / 10) * cos (radians lat)) + 1 / 2000000"
proof -
  have c: "6 / 25 \<le> cos (radians lat)"
    using lat by (intro cos_radians_ge) simp_all
  then have c0: "cos (radians lat) \<noteq> 0"
    by simp
  define rho where "rho = d / (1111 / 10)"
  define rho' where "rho' = d / ((1111 / 10) * cos (radians lat))"
  define dlat where "dlat = - rho + (rho - - rho) * shd (draws g)"
  define dlon where "dlon = - rho' + (rho' - - rho') * shd (stl (draws g))"
  have rho: "0 \<le> rho" "rho \<le> 10"
    using d by (simp_all add: rho_def)
  have rho'0: "0 \<le> rho'"
    using d c by (simp add: rho'_def)
  have "d / ((1111 / 10) * cos (radians lat)) \<le> 1000 / ((1111 / 10) * (6 / 25))"
    using d c by (intro frac_le) simp_all
  then have rho': "rho' \<le> 38"
    by (simp add: rho'_def)
  have dlat: "\<bar>dlat\<bar> \<le> rho"
    unfolding dlat_def using rho(1) u1 by (rule uniform_offset_abs)
  have dlon: "\<bar>dlon\<bar> \<le> rho'"
    unfolding dlon_def using rho'0 u2 by (rule uniform_offset_abs)
  from gl have la: "la = py_round (max (- 90) (min 90 (lat + dlat))) 6"
    and lo: "lo = py_round (py_mod (lon + dlon + 180) 360 - 180) 6"
    unfolding generate_location_around_Inr [OF c0] dlat_def dlon_def rho_def rho'_def
    by simp_all
  have "max (- 90) (min 90 (lat + dlat)) = lat + dlat"
    using lat dlat rho by simp
  then have la': "la = py_round (lat + dlat) 6"
    using la by simp
  have "0 \<le> lon + dlon + 180" "lon + dlon + 180 < 360"
    using lon dlon rho' by simp_all
  then have "py_mod (lon + dlon + 180) 360 = lon + dlon + 180"
    by (rule py_mod_id)
  then have lo': "lo = py_round (lon + dlon) 6"
    using lo by simp
  have "\<bar>la - lat\<bar> \<le> \<bar>la - (lat + dlat)\<bar> + \<bar>dlat\<bar>"
    by simp
  also have "\<dots> \<le> 1 / 2000000 + rho"
    unfolding la' using py_round_6_near [of "lat + dlat"] dlat by (intro add_mono) simp_all
  finally have r1: "\<bar>la - lat\<bar> \<le> rho + 1 / 2000000"
    by simp
  have "\<bar>lo - lon\<bar> \<le> \<bar>lo - (lon + dlon)\<bar> + \<bar>dlon\<bar>"
    by simp
  also have "\<dots> \<le> 1 / 2000000 + rho'"
    unfolding lo' using py_round_6_near [of "lon + dlon"] dlon by (intro add_mono) simp_all
  finally have r2: "\<bar>lo - lon\<bar> \<le> rho' + 1 / 2000000"
    by simp
  from r1 r2 show ?thesis
    by (simp add: rho_def rho'_def)
qed

lemma normal_path_InrD:
  assumes "normal_path cfg c now g = (Inr (a, la, lo, t), g')"
  shows "\<exists>g3. generate_location_around (HomeLatitude c) (HomeLongitude c)
            (0 + (LOCATION_VARIATION_KM_NORMAL cfg - 0) * shd (stl (draws g)))
            (g\<lparr>draws := stl (stl (draws g))\<rparr>) = (Inr (la, lo), g3)"
  using assms unfolding normal_path_def
  by (auto simp: Let_def uniform_eq split: prod.splits sum.splits)

lemma normal_path_box:
  assumes np: "normal_path cfg c now g = (Inr (a, la, lo, t), g')"
    and home: "25 \<le> HomeLatitude c" "HomeLatitude c \<le> 65"
      "- 125 \<le> HomeLongitude c" "HomeLongitude c \<le> 40"
    and R: "0 \<le> LOCATION_VARIATION_KM_NORMAL cfg" "LOCATION_VARIATION_KM_NORMAL cfg \<le> 1000"
    and v: "valid_draws (draws g)"
  shows "\<bar>la - HomeLatitude c\<bar> \<le> LOCATION_VARIATION_KM_NORMAL cfg / (1111 / 10) + 1 / 2000000 \<and>
         \<bar>lo - HomeLongitude c\<bar>
           \<le> LOCATION_VARIATION_KM_NORMAL cfg / ((1111 / 10) * cos (radians (HomeLatitude c)))
               + 1 / 2000000"
proof -
  define R where "R = LOCATION_VARIATION_KM_NORMAL cfg"
  define d where "d = 0 + (R - 0) * shd (stl (draws g))"
  let ?g = "g\<lparr>draws := stl (stl (draws g))\<rparr>"
  from normal_path_InrD [OF np] obtain g3 where
    gl: "generate_location_around (HomeLatitude c) (HomeLongitude c) d ?g = (Inr (la, lo), g3)"
    unfolding d_def R_def by blast
  have v1: "valid_draws (stl (draws g))" using v by (rule valid_draws_stl)
  then have v2: "valid_draws (stl (stl (draws g)))" by (rule valid_draws_stl)
  then have v3: "valid_draws (stl (stl (stl (draws g))))" by (rule valid_draws_stl)
  have u: "0 \<le> shd (stl (draws g))" "shd (stl (draws g)) < 1"
    using valid_draws_shd [OF v1] by simp_all
  have "0 \<le> R * shd (stl (draws g))" "R * shd (stl (draws g)) \<le> R"
    using R u by (simp_all add: R_def mult_left_le)
  then have d: "0 \<le> d" "d \<le> R" "d \<le> 1000"
    using R by (simp_all add: d_def R_def)
  have c: "6 / 25 \<le> cos (radians (HomeLatitude c))"
    using home by (intro cos_radians_ge) simp_all
  have box: "\<bar>la - HomeLatitude c\<bar> \<le> d / (1111 / 10) + 1 / 2000000 \<and>
         \<bar>lo - HomeLongitude c\<bar>
           \<le> d / ((1111 / 10) * cos (radians (HomeLatitude c))) + 1 / 2000000"
    using home d(1) d(3) valid_draws_shd [OF v2] valid_draws_shd [OF v3] gl
    by (intro location_box [where g = ?g and g' = g3]) simp_all
  have m1: "d / (1111 / 10) \<le> R / (1111 / 10)"
    using d(2) by (intro divide_right_mono) simp_all
  have m2: "d / ((1111 / 10) * cos (radians (HomeLatitude c)))
      \<le> R / ((1111 / 10) * cos (radians (HomeLatitude c)))"
    using d(2) c by (intro divide_right_mono) simp_all
  from box m1 m2 show ?thesis
    unfolding R_def by linarith
qed


lemma new_card_ok:
  assumes "new_card cfg g = (c, g')" and "valid_draws (draws g)"
  shows "25 \<le> HomeLatitude c \<and> HomeLatitude c \<le> 65 \<and>
         - 125 \<le> HomeLongitude c \<and> HomeLongitude c \<le> 40 \<and> advanced g g'"
proof -
  have v1: "valid_draws (stl (draws g))" using assms(2) by (rule valid_draws_stl)
  have u0: "0 \<le> shd (draws g)" "shd (draws g) < 1"
    using valid_draws_shd [OF assms(2)] by simp_all
  have u1: "0 \<le> shd (stl (draws g))" "shd (stl (draws g)) < 1"
    using valid_draws_shd [OF v1] by simp_all
  from assms(1) have la: "HomeLatitude c = py_round (25 + (65 - 25) * shd (draws g)) 6"
    and lo: "HomeLongitude c = py_round (- 125 + (40 - - 125) * shd (stl (draws g))) 6"
    and g': "draws g' = stl (stl (stl (draws g)))"
    by (auto simp: new_card_def uniform_eq random_def Let_def)
  have "of_int 25 \<le> py_round (25 + (65 - 25) * shd (draws g)) 6"
    using u0 by (intro py_round_6_ge) simp
  moreover have "py_round (25 + (65 - 25) * shd (draws g)) 6 \<le> of_int 65"
    using u0 by (intro py_round_6_le) simp
  moreover have "of_int (- 125) \<le> py_round (- 125 + (40 - - 125) * shd (stl (draws g))) 6"
    using u1 by (intro py_round_6_ge) simp
  moreover have "py_round (- 125 + (40 - - 125) * shd (stl (draws g))) 6 \<le> of_int 40"
    using u1 by (intro py_round_6_le) simp
  moreover have "advanced g g'"
  proof -
    from g' have "draws g' = sdrop 3 (draws g)"
      by (simp add: numeral_3_eq_3)
    then show ?thesis unfolding advanced_def by blast
  qed
  ultimately show ?thesis
    unfolding la lo by simp
qed

lemma init_cards_ok:
  "valid_draws (draws g) \<Longrightarrow> init_cards cfg n g = (cs, g') \<Longrightarrow>
     population_ok cs \<and> advanced g g'"
proof (induction n arbitrary: g cs g')
  case 0
  then show ?case by (simp add: population_ok_def advanced_refl)
next
  case (Suc n)
  obtain c g1 where c: "new_card cfg g = (c, g1)" by (cases "new_card cfg g")
  obtain cs1 g2 where cs1: "init_cards cfg n g1 = (cs1, g2)" by (cases "init_cards cfg n g1")
  note ok = new_card_ok [OF c Suc.prems(1)]
  then have "valid_draws (draws g1)"
    using advanced_valid Suc.prems(1) by blast
  from Suc.IH [OF this cs1] have ih: "population_ok cs1" "advanced g1 g2"
    by simp_all
  from Suc.prems(2) c cs1 have e: "cs = c # cs1" "g' = g2"
    by simp_all
  from ok ih show ?case
    unfolding e by (auto simp: population_ok_def intro: advanced_trans)
qed

lemma transaction_step_normal_sound:
  assumes step: "transaction_step cfg st = Inr st'"
    and inv: "normal_sound cfg st"
    and R: "0 \<le> LOCATION_VARIATION_KM_NORMAL cfg" "LOCATION_VARIATION_KM_NORMAL cfg \<le> 1000"
  shows "normal_sound cfg st'"
proof -
  from transaction_step_InrD [OF step] obtain k g0 f g1 res g2 where
    rb: "randbelow (length (cards_data st)) (rng st) = (k, g0)"
    and k: "k < length (cards_data st)"
    and fd: "fraud_decision cfg (cards_data st ! k) g0 = (f, g1)"
    and path: "(if f then fraud_path cfg (cards_data st ! k) (current_time st) g1
            else normal_path cfg (cards_data st ! k) (current_time st) g1) = (Inr res, g2)"
    and st': "st' = emit_and_update st cfg k f res g2"
    by blast
  obtain a la lo now where res: "res = (a, la, lo, now)"
    by (cases res)
  from inv have pop: "population_ok (cards_data st)" and v: "valid_draws (draws (rng st))"
    and old: "\<forall>r \<in> set (stdout st). \<not> IsFraud r \<longrightarrow>
          in_degree_box (LOCATION_VARIATION_KM_NORMAL cfg) r"
    by (simp_all add: normal_sound_def)
  have pop': "population_ok (cards_data st')"
    using transaction_step_homes [OF step] pop population_ok_maps by blast
  have v': "valid_draws (draws (rng st'))"
    using transaction_step_advanced [OF step] v advanced_valid by blast
  have "advanced (rng st) g1"
    using randbelow_advanced [OF rb] fraud_decision_advanced [OF fd] advanced_trans by blast
  then have v1: "valid_draws (draws g1)"
    using v advanced_valid by blast
  from k have "cards_data st ! k \<in> set (cards_data st)"
    by simp
  with pop have home: "25 \<le> HomeLatitude (cards_data st ! k)"
    "HomeLatitude (cards_data st ! k) \<le> 65"
    "- 125 \<le> HomeLongitude (cards_data st ! k)" "HomeLongitude (cards_data st ! k) \<le> 40"
    by (simp_all add: population_ok_def)
  have new: "in_degree_box (LOCATION_VARIATION_KM_NORMAL cfg)
     \<lparr> TransactionID = shd (uuids st), CardID = k, Timestamp = strftime now,
        Amount = a, MerchantID = fst (randint 1000 9999 g2), MerchantLatitude = la,
        MerchantLongitude = lo, IsFraud = f,
        RecHomeLatitude = HomeLatitude (cards_data st ! k),
        RecHomeLongitude = HomeLongitude (cards_data st ! k) \<rparr>" if nf: "\<not> f"
  proof -
    from path nf res have "normal_path cfg (cards_data st ! k) (current_time st) g1
        = (Inr (a, la, lo, now), g2)"
      by simp
    from normal_path_box [OF this home R v1] home show ?thesis
      by (simp add: in_degree_box_def)
  qed
  have "\<forall>r \<in> set (stdout st'). \<not> IsFraud r \<longrightarrow>
          in_degree_box (LOCATION_VARIATION_KM_NORMAL cfg) r"
    unfolding st' res using old new by (auto simp: emit_and_update_fields)
  with pop' v' show ?thesis
    by (simp add: normal_sound_def)
qed

lemma run_loop_normal_sound:
  "normal_sound cfg st \<Longrightarrow> 0 \<le> LOCATION_VARIATION_KM_NORMAL cfg \<Longrightarrow>
     LOCATION_VARIATION_KM_NORMAL cfg \<le> 1000 \<Longrightarrow> run_loop cfg n st = (st', e) \<Longrightarrow>
     normal_sound cfg st'"
proof (induction n arbitrary: st)
  case 0
  then show ?case by simp
next
  case (Suc n)
  show ?case
  proof (cases "transaction_step cfg st")
    case (Inl err)
    with Suc.prems show ?thesis by simp
  next
    case (Inr st1)
    with Suc.prems have "run_loop cfg n st1 = (st', e)" by simp
    from Suc.IH [OF transaction_step_normal_sound [OF Inr Suc.prems(1-3)] Suc.prems(2,3) this]
    show ?thesis .
  qed
qed

lemma simulate_normal_sound:
  assumes "simulate cfg g start ids = (st, err)" and "valid_draws (draws g)"
    and "0 \<le> LOCATION_VARIATION_KM_NORMAL cfg" and "LOCATION_VARIATION_KM_NORMAL cfg \<le> 1000"
  shows "normal_sound cfg st"
proof -
  obtain cs g1 where i: "init_cards cfg (nat (NUM_CARDS cfg)) g = (cs, g1)"
    by (cases "init_cards cfg (nat (NUM_CARDS cfg)) g")
  let ?st0 = "\<lparr> cards_data = cs, current_time = start, rng = g1, uuids = ids, stdout = [] \<rparr>"
  have run: "run_loop cfg (nat (NUM_TRANSACTIONS cfg)) ?st0 = (st, err)"
    using assms(1) i by (simp add: simulate_def)
  from init_cards_ok [OF assms(2) i] have "population_ok cs" "valid_draws (draws g1)"
    using advanced_valid assms(2) by blast+
  then have "normal_sound cfg ?st0"
    by (simp add: normal_sound_def)
  from run_loop_normal_sound [OF this assms(3,4) run] show ?thesis .
qed

subsection \<open>Distances in the box\<close>

lemma sin_small_ge:
  fixes x lo hi :: real
  assumes "0 \<le> lo" "lo \<le> x" "x \<le> hi"
  shows "lo - hi ^ 3 / 6 \<le> sin x"
proof -
  have x0: "0 \<le> x" using assms by simp
  have "x ^ 3 \<le> hi ^ 3"
    using assms(3) x0 by (rule power_mono)
  with sin_ge_cubic [OF x0] assms(2) show ?thesis
    by simp
qed

lemma corner_a_ge: "(53 / 10000)\<^sup>2 \<le> haversine_a 60 10 (1191 / 20) (91 / 10)"
proof -
  have r1: "radians (1191 / 20 - 60) / 2 = - (pi / 800)"
    and r2: "radians (91 / 10 - 10) / 2 = - (pi / 400)"
    by (simp_all add: radians_def)
  have x1: "3 / 800 \<le> pi / 800" "pi / 800 \<le> 63 / 16000"
    using pi_ge_3 pi_le_315 by simp_all
  have x2: "3 / 400 \<le> pi / 400" "pi / 400 \<le> 63 / 8000"
    using pi_ge_3 pi_le_315 by simp_all
  have "3 / 800 - (63 / 16000) ^ 3 / 6 \<le> sin (pi / 800)"
    using x1 by (intro sin_small_ge) simp_all
  then have s1: "3749 / 1000000 \<le> sin (pi / 800)"
    by (simp add: power3_eq_cube)
  have "3 / 400 - (63 / 8000) ^ 3 / 6 \<le> sin (pi / 400)"
    using x2 by (intro sin_small_ge) simp_all
  then have s2: "7499 / 1000000 \<le> sin (pi / 400)"
    by (simp add: power3_eq_cube)
  have q1: "(3749 / 1000000)\<^sup>2 \<le> (sin (pi / 800))\<^sup>2"
    using s1 by (intro power_mono) simp_all
  have q2: "(7499 / 1000000)\<^sup>2 \<le> (sin (pi / 400))\<^sup>2"
    using s2 by (intro power_mono) simp_all
  have "0 \<le> radians (1191 / 20)" "radians (1191 / 20) \<le> pi / 3" "pi / 3 \<le> pi"
    by (simp_all add: radians_def)
  then have "cos (pi / 3) \<le> cos (radians (1191 / 20))"
    by (rule cos_monotone_0_pi_le)
  then have c2: "1 / 2 \<le> cos (radians (1191 / 20))"
    by (simp add: cos_60)
  have "1 / 2 * (1 / 2) * (7499 / 1000000)\<^sup>2
      \<le> cos (radians 60) * cos (radians (1191 / 20)) * (sin (pi / 400))\<^sup>2"
    unfolding cos_radians_60 using c2 q2 by (intro mult_mono) simp_all
  with q1 have "(3749 / 1000000)\<^sup>2 + 1 / 2 * (1 / 2) * (7499 / 1000000)\<^sup>2
      \<le> haversine_a 60 10 (1191 / 20) (91 / 10)"
    unfolding haversine_a_def r1 r2 by (simp only: sin_minus power2_minus add_mono)
  then show ?thesis
    by (simp add: power2_eq_square)
qed

lemma haversine_a_le:
  "haversine_a lat1 lon1 lat2 lon2
     \<le> (radians (lat2 - lat1) / 2)\<^sup>2 + \<bar>cos (radians lat1) * cos (radians lat2)\<bar>
          * (radians (lon2 - lon1) / 2)\<^sup>2"
proof -
  have "cos (radians lat1) * cos (radians lat2) * (sin (radians (lon2 - lon1) / 2))\<^sup>2
      \<le> \<bar>cos (radians lat1) * cos (radians lat2)\<bar> * (sin (radians (lon2 - lon1) / 2))\<^sup>2"
    by (intro mult_right_mono) simp_all
  also have "\<dots> \<le> \<bar>cos (radians lat1) * cos (radians lat2)\<bar> * (radians (lon2 - lon1) / 2)\<^sup>2"
    by (intro mult_left_mono sin_sq_le) simp
  finally show ?thesis
    unfolding haversine_a_def using sin_sq_le [of "radians (lat2 - lat1) / 2"] by linarith
qed

lemma corner_a_lt: "haversine_a 60 10 (1191 / 20) (91 / 10) < 1"
proof -
  have r1: "radians (1191 / 20 - 60) / 2 = - (pi / 800)"
    and r2: "radians (91 / 10 - 10) / 2 = - (pi / 400)"
    by (simp_all add: radians_def)
  have "\<bar>cos (radians 60) * cos (radians (1191 / 20))\<bar> \<le> 1 * 1"
    unfolding abs_mult by (intro mult_mono) simp_all
  then have m: "\<bar>cos (radians 60) * cos (radians (1191 / 20))\<bar> * (pi / 400)\<^sup>2
      \<le> 1 * (pi / 400)\<^sup>2"
    by (intro mult_right_mono) simp_all
  have h: "haversine_a 60 10 (1191 / 20) (91 / 10)
      \<le> (pi / 800)\<^sup>2 + \<bar>cos (radians 60) * cos (radians (1191 / 20))\<bar> * (pi / 400)\<^sup>2"
    using haversine_a_le [of 60 10 "1191 / 20" "91 / 10"] unfolding r1 r2 by simp
  from h m have "haversine_a 60 10 (1191 / 20) (91 / 10) \<le> (pi / 800)\<^sup>2 + (pi / 400)\<^sup>2"
    by linarith
  also have "\<dots> \<le> (4 / 800)\<^sup>2 + (4 / 400)\<^sup>2"
    using pi_less_4 by (intro add_mono power_mono) simp_all
  finally show ?thesis
    by (simp add: power2_eq_square)
qed

lemma corner_distance: "66 < haversine 60 10 (1191 / 20) (91 / 10)"
proof -
  have a0: "0 \<le> haversine_a 60 10 (1191 / 20) (91 / 10)"
    using corner_a_ge by (rule order_trans [rotated]) simp
  have "tan (52 / 10000 :: real) \<le> (52 / 10000) / (1 - (52 / 10000)\<^sup>2 / 2)"
    by (intro tan_le_rational) simp_all
  also have "\<dots> \<le> 53 / 10000"
    by (simp add: power2_eq_square)
  finally have t: "tan (52 / 10000 :: real) \<le> 53 / 10000" .
  have "52 / 10000 \<le> atan2 (sqrt (haversine_a 60 10 (1191 / 20) (91 / 10)))
      (sqrt (1 - haversine_a 60 10 (1191 / 20) (91 / 10)))"
    using a0 corner_a_lt corner_a_ge t by (intro atan2_sqrt_ge [where q = "53 / 10000"]) simp_all
  then show ?thesis
    unfolding haversine_eq by simp
qed

lemma radians_diff: "radians (x - y) = radians x - radians y"
  by (simp add: radians_def diff_divide_distrib left_diff_distrib)

lemma abs_radians_le:
  assumes "\<bar>d\<bar> \<le> B"
  shows "\<bar>radians d\<bar> \<le> B * (7 / 400)"
proof -
  have p: "0 \<le> pi / 180" "pi / 180 \<le> 7 / 400"
    using pi_le_315 by simp_all
  have B: "0 \<le> B"
    using assms by simp
  have "\<bar>radians d\<bar> = \<bar>d\<bar> * (pi / 180)"
    by (simp add: radians_def abs_mult)
  also have "\<dots> \<le> B * (7 / 400)"
    using assms p B by (intro mult_mono) simp_all
  finally show ?thesis .
qed

lemma haversine_box_le_72:
  assumes lat: "25 \<le> lat1" "lat1 \<le> 65"
    and dlat: "\<bar>lat2 - lat1\<bar> \<le> 50 / (1111 / 10) + 1 / 2000000"
    and dlon: "\<bar>lon2 - lon1\<bar> \<le> 50 / ((1111 / 10) * cos (radians lat1)) + 1 / 2000000"
  shows "haversine lat1 lon1 lat2 lon2 \<le> 72"
proof -
  define A0 :: real where "A0 = 1969 / 250000"
  define c1 where "c1 = cos (radians lat1)"
  define c2 where "c2 = cos (radians lat2)"
  define dphi where "dphi = radians (lat2 - lat1)"
  define dlam where "dlam = radians (lon2 - lon1)"
  define a where "a = haversine_a lat1 lon1 lat2 lon2"
  have "6 / 25 \<le> cos (radians lat1)"
    using lat by (intro cos_radians_ge) simp_all
  then have c1: "6 / 25 \<le> c1" "c1 \<le> 1"
    unfolding c1_def by simp_all
  have "\<bar>lat2 - lat1\<bar> \<le> 1"
    using dlat by simp
  then have "0 \<le> lat2" "lat2 \<le> 75"
    using lat by linarith+
  then have c2: "6 / 25 \<le> c2"
    unfolding c2_def by (rule cos_radians_ge)
  have "\<bar>dphi\<bar> \<le> (50 / (1111 / 10) + 1 / 2000000) * (7 / 400)"
    unfolding dphi_def using dlat by (rule abs_radians_le)
  then have dphi: "\<bar>dphi\<bar> \<le> A0"
    by (simp add: A0_def)
  have "c1 * \<bar>lon2 - lon1\<bar> \<le> c1 * (50 / ((1111 / 10) * c1) + 1 / 2000000)"
    using dlon c1 unfolding c1_def by (intro mult_left_mono) simp_all
  also have "\<dots> = 500 / 1111 + c1 / 2000000"
    using c1 by (simp add: field_simps)
  also have "\<dots> \<le> 500 / 1111 + 1 / 2000000"
    using c1 by simp
  finally have w0: "\<bar>c1 * (lon2 - lon1)\<bar> \<le> 500 / 1111 + 1 / 2000000"
    using c1 by (simp add: abs_mult)
  have "\<bar>radians (c1 * (lon2 - lon1))\<bar> \<le> (500 / 1111 + 1 / 2000000) * (7 / 400)"
    using w0 by (rule abs_radians_le)
  moreover have "radians (c1 * (lon2 - lon1)) = c1 * dlam"
    by (simp add: radians_def dlam_def)
  ultimately have w: "\<bar>c1 * dlam\<bar> \<le> A0"
    by (simp add: A0_def)
  have "c2 \<le> c1 + \<bar>radians lat2 - radians lat1\<bar>"
    unfolding c1_def c2_def by (rule cos_lipschitz)
  then have c2le: "c2 \<le> c1 + A0"
    using dphi by (simp add: dphi_def radians_diff)
  have sq1: "dphi\<^sup>2 \<le> A0\<^sup>2"
    using dphi by (simp add: abs_le_square_iff [symmetric] A0_def)
  have sq2: "(c1 * dlam)\<^sup>2 \<le> A0\<^sup>2"
    using w by (simp add: abs_le_square_iff [symmetric] A0_def)
  have "c1 * dlam\<^sup>2 = (c1 * dlam)\<^sup>2 / c1"
    using c1 by (simp add: power2_eq_square)
  also have "\<dots> \<le> A0\<^sup>2 / (6 / 25)"
    using sq2 c1 by (intro frac_le) simp_all
  finally have sq3: "c1 * dlam\<^sup>2 \<le> A0\<^sup>2 * (25 / 6)"
    by simp
  have "c1 * c2 * (dlam / 2)\<^sup>2 \<le> c1 * (c1 + A0) * (dlam / 2)\<^sup>2"
    using c2le c1 by (intro mult_right_mono mult_left_mono) simp_all
  also have "\<dots> = ((c1 * dlam)\<^sup>2 + A0 * (c1 * dlam\<^sup>2)) / 4"
    by (simp add: power2_eq_square algebra_simps)
  also have "\<dots> \<le> (A0\<^sup>2 + A0 * (A0\<^sup>2 * (25 / 6))) / 4"
    using sq2 sq3 by (intro divide_right_mono add_mono mult_left_mono) (simp_all add: A0_def)
  finally have t2: "c1 * c2 * (dlam / 2)\<^sup>2 \<le> (A0\<^sup>2 + A0 * (A0\<^sup>2 * (25 / 6))) / 4" .
  have t1: "(dphi / 2)\<^sup>2 \<le> A0\<^sup>2 / 4"
    using sq1 by (simp add: power2_eq_square)
  have "0 \<le> c1 * c2"
    using c1 c2 by simp
  then have "a \<le> (dphi / 2)\<^sup>2 + c1 * c2 * (dlam / 2)\<^sup>2"
    using haversine_a_le [of lat1 lon1 lat2 lon2]
    unfolding a_def c1_def c2_def dphi_def dlam_def by simp
  with t1 t2 have "a \<le> A0\<^sup>2 / 4 + (A0\<^sup>2 + A0 * (A0\<^sup>2 * (25 / 6))) / 4"
    by linarith
  then have a_le: "a \<le> 316 / 10000000"
    by (simp add: A0_def power2_eq_square)
  have a0: "0 \<le> a"
    unfolding a_def haversine_a_def using c1 c2 by (simp add: c1_def c2_def)
  have a1: "a < 1"
    using a_le by simp
  have "a * (1 + (141 / 25000)\<^sup>2) \<le> (316 / 10000000) * (1 + (141 / 25000)\<^sup>2)"
    using a_le by (intro mult_right_mono) simp_all
  also have "\<dots> \<le> (141 / 25000)\<^sup>2"
    by (simp add: power2_eq_square)
  finally have q: "a \<le> (141 / 25000)\<^sup>2 * (1 - a)"
    by (simp add: algebra_simps)
  have "(141 / 25000 :: real) \<le> 36 / 6371 - (36 / 6371) ^ 3 / 6"
    by (simp add: power3_eq_cube)
  also have "\<dots> \<le> tan (36 / 6371)"
    by (intro tan_ge_cubic) simp_all
  finally have t: "(141 / 25000 :: real) \<le> tan (36 / 6371)" .
  have "atan2 (sqrt a) (sqrt (1 - a)) \<le> 36 / 6371"
    using a0 a1 q t by (intro atan2_sqrt_le [where q = "141 / 25000"]) simp_all
  then show ?thesis
    unfolding haversine_eq a_def [symmetric] by simp
qed

lemma init_corner:
  "init_cards cfg_one (Suc 0) (rng_of corner_draws) =
     ([fresh_card 60 10 False], rng_of (0 ## 0 ## 9999 / 10000 ## sconst 0))"
  by (simp add: corner_draws_def cfg_one_def new_card_def default_config_def rng_of_def
      fresh_card_def uniform_def random_def py_round_def round_half_even_def)

lemma corner_step:
  "\<exists>st' r. transaction_step cfg_one
      \<lparr> cards_data = [fresh_card 60 10 False], current_time = start,
        rng = rng_of (0 ## 0 ## 9999 / 10000 ## sconst 0), uuids = ids, stdout = [] \<rparr> = Inr st' \<and>
     stdout st' = [r] \<and> \<not> IsFraud r \<and> RecHomeLatitude r = 60 \<and> RecHomeLongitude r = 10 \<and>
     MerchantLatitude r = 1191 / 20 \<and> MerchantLongitude r = 91 / 10"
  by (simp add: cfg_one_def eval_defs)

lemma corner_run:
  "\<exists>st r. simulate cfg_one (rng_of corner_draws) start ids = (st, None) \<and>
     stdout st = [r] \<and> \<not> IsFraud r \<and> RecHomeLatitude r = 60 \<and> RecHomeLongitude r = 10 \<and>
     MerchantLatitude r = 1191 / 20 \<and> MerchantLongitude r = 91 / 10"
proof -
  have n: "nat (NUM_CARDS cfg_one) = Suc 0" "nat (NUM_TRANSACTIONS cfg_one) = Suc 0"
    by (simp_all add: cfg_one_def default_config_def)
  from corner_step [of start ids] show ?thesis
    unfolding simulate_def n init_corner by auto
qed

lemma valid_corner_draws: "valid_draws corner_draws"
  unfolding corner_draws_def
  by (intro valid_draws_SCons valid_draws_sconst) simp_all


lemma in_degree_box_distance:
  assumes "in_degree_box R r" and "0 \<le> R" and "R \<le> 50"
  shows "haversine (RecHomeLatitude r) (RecHomeLongitude r)
           (MerchantLatitude r) (MerchantLongitude r) \<le> 72"
proof -
  from assms(1) have home: "25 \<le> RecHomeLatitude r" "RecHomeLatitude r \<le> 65"
    and b1: "\<bar>MerchantLatitude r - RecHomeLatitude r\<bar> \<le> R / (1111 / 10) + 1 / 2000000"
    and b2: "\<bar>MerchantLongitude r - RecHomeLongitude r\<bar>
        \<le> R / ((1111 / 10) * cos (radians (RecHomeLatitude r))) + 1 / 2000000"
    by (simp_all add: in_degree_box_def)
  have c: "6 / 25 \<le> cos (radians (RecHomeLatitude r))"
    using home by (intro cos_radians_ge) simp_all
  have m1: "R / (1111 / 10) \<le> 50 / (1111 / 10)"
    using assms(3) by (intro divide_right_mono) simp_all
  have m2: "R / ((1111 / 10) * cos (radians (RecHomeLatitude r)))
      \<le> 50 / ((1111 / 10) * cos (radians (RecHomeLatitude r)))"
    using assms(3) c by (intro divide_right_mono) simp_all
  from b1 m1 have b1': "\<bar>MerchantLatitude r - RecHomeLatitude r\<bar>
      \<le> 50 / (1111 / 10) + 1 / 2000000"
    by linarith
  from b2 m2 have b2': "\<bar>MerchantLongitude r - RecHomeLongitude r\<bar>
      \<le> 50 / ((1111 / 10) * cos (radians (RecHomeLatitude r))) + 1 / 2000000"
    by linarith
  from home b1' b2' show ?thesis
    by (rule haversine_box_le_72)
qed

text \<open>
  Claim C2, as the code has it. The sampler draws the two offsets independently, in a
  box of degrees, and one degree of latitude is taken as 111.1 km. In this run of one
  card and one transaction with the default constants, the record is not fraudulent, the
  home is at (60, 10) and the merchant at (59.55, 9.1), a corner of the box for a radius
  of 49.995 km: more than 66 km from the home.
\<close>

theorem normal_record_beyond_radius:
  "\<exists>st r. simulate cfg_one (rng_of corner_draws) 0 (sconst 0) = (st, None) \<and>
     stdout st = [r] \<and> \<not> IsFraud r \<and> RecHomeLatitude r = 60 \<and> RecHomeLongitude r = 10 \<and>
     MerchantLatitude r = 1191 / 20 \<and> MerchantLongitude r = 91 / 10 \<and>
     LOCATION_VARIATION_KM_NORMAL cfg_one = 50 \<and>
     66 < haversine (RecHomeLatitude r) (RecHomeLongitude r)
            (MerchantLatitude r) (MerchantLongitude r)"
proof -
  from corner_run [of 0 "sconst 0"] obtain st r where
    "simulate cfg_one (rng_of corner_draws) 0 (sconst 0) = (st, None) \<and>
     stdout st = [r] \<and> \<not> IsFraud r \<and> RecHomeLatitude r = 60 \<and> RecHomeLongitude r = 10 \<and>
     MerchantLatitude r = 1191 / 20 \<and> MerchantLongitude r = 91 / 10"
    by (elim exE)
  then have s: "simulate cfg_one (rng_of corner_draws) 0 (sconst 0) = (st, None)"
    "stdout st = [r]" "\<not> IsFraud r" "RecHomeLatitude r = 60" "RecHomeLongitude r = 10"
    "MerchantLatitude r = 1191 / 20" "MerchantLongitude r = 91 / 10"
    by simp_all
  have R: "LOCATION_VARIATION_KM_NORMAL cfg_one = 50"
    by (simp add: cfg_one_def default_config_def)
  have d: "66 < haversine (RecHomeLatitude r) (RecHomeLongitude r)
            (MerchantLatitude r) (MerchantLongitude r)"
    unfolding s(4-7) by (rule corner_distance)
  show ?thesis
    by (intro exI [of _ st] exI [of _ r] conjI s R d)
qed

text \<open>
  Claim C2, amended. In every run with draws in \<open>[0, 1)\<close> and a normal radius maximum
  between 0 and 50 km, every record that is not fraudulent has its merchant in the box
  around the card's home: at most \<open>radius / 111.1\<close> degrees of latitude and
  \<open>radius / (111.1 * cos(home latitude))\<close> degrees of longitude away, up to the
  rounding of the coordinates to six places. The great-circle distance from the home is
  therefore at most 72 km.
\<close>

theorem normal_records_near_home:
  assumes "simulate cfg g start ids = (st, err)"
    and "valid_draws (draws g)"
    and "0 \<le> LOCATION_VARIATION_KM_NORMAL cfg"
    and "LOCATION_VARIATION_KM_NORMAL cfg \<le> 50"
  shows "\<forall>r \<in> set (stdout st). \<not> IsFraud r \<longrightarrow>
           \<bar>MerchantLatitude r - RecHomeLatitude r\<bar>
             \<le> LOCATION_VARIATION_KM_NORMAL cfg / (1111 / 10) + 1 / 2000000 \<and>
           \<bar>MerchantLongitude r - RecHomeLongitude r\<bar>
             \<le> LOCATION_VARIATION_KM_NORMAL cfg
                   / ((1111 / 10) * cos (radians (RecHomeLatitude r))) + 1 / 2000000 \<and>
           haversine (RecHomeLatitude r) (RecHomeLongitude r)
             (MerchantLatitude r) (MerchantLongitude r) \<le> 72"
proof (intro ballI impI)
  fix r assume r: "r \<in> set (stdout st)" and nf: "\<not> IsFraud r"
  have "LOCATION_VARIATION_KM_NORMAL cfg \<le> 1000"
    using assms(4) by simp
  from simulate_normal_sound [OF assms(1) assms(2) assms(3) this] r nf
  have box: "in_degree_box (LOCATION_VARIATION_KM_NORMAL cfg) r"
    by (simp add: normal_sound_def)
  from in_degree_box_distance [OF box assms(3) assms(4)] box
  show "\<bar>MerchantLatitude r - RecHomeLatitude r\<bar>
             \<le> LOCATION_VARIATION_KM_NORMAL cfg / (1111 / 10) + 1 / 2000000 \<and>
           \<bar>MerchantLongitude r - RecHomeLongitude r\<bar>
             \<le> LOCATION_VARIATION_KM_NORMAL cfg
                   / ((1111 / 10) * cos (radians (RecHomeLatitude r))) + 1 / 2000000 \<and>
           haversine (RecHomeLatitude r) (RecHomeLongitude r)
             (MerchantLatitude r) (MerchantLongitude r) \<le> 72"
    by (simp add: in_degree_box_def)
qed

theorem normal_records_near_home_witness:
  "\<exists>st r. simulate cfg_one (rng_of corner_draws) 0 (sconst 0) = (st, None) \<and>
     valid_draws (draws (rng_of corner_draws)) \<and>
     0 \<le> LOCATION_VARIATION_KM_NORMAL cfg_one \<and> LOCATION_VARIATION_KM_NORMAL cfg_one \<le> 50 \<and>
     r \<in> set (stdout st) \<and> \<not> IsFraud r \<and>
     haversine (RecHomeLatitude r) (RecHomeLongitude r)
       (MerchantLatitude r) (MerchantLongitude r) \<le> 72"
proof -
  from corner_run [of 0 "sconst 0"] obtain st r where
    "simulate cfg_one (rng_of corner_draws) 0 (sconst 0) = (st, None) \<and>
     stdout st = [r] \<and> \<not> IsFraud r \<and> RecHomeLatitude r = 60 \<and> RecHomeLongitude r = 10 \<and>
     MerchantLatitude r = 1191 / 20 \<and> MerchantLongitude r = 91 / 10"
    by (elim exE)
  then have s: "simulate cfg_one (rng_of corner_draws) 0 (sconst 0) = (st, None)"
    "stdout st = [r]" "\<not> IsFraud r"
    by simp_all
  have v: "valid_draws (draws (rng_of corner_draws))"
    using valid_corner_draws by (simp add: rng_of_simps)
  have R: "0 \<le> LOCATION_VARIATION_KM_NORMAL cfg_one" "LOCATION_VARIATION_KM_NORMAL cfg_one \<le> 50"
    by (simp_all add: cfg_one_def default_config_def)
  have m: "r \<in> set (stdout st)"
    using s(2) by simp
  from normal_records_near_home [OF s(1) v R] m s(3)
  have d: "haversine (RecHomeLatitude r) (RecHomeLongitude r)
       (MerchantLatitude r) (MerchantLongitude r) \<le> 72"
    by blast
  show ?thesis
    by (intro exI [of _ st] exI [of _ r] conjI s(1) v R m s(3) d)
qed

subsection \<open>The first record of a run\<close>

lemma randbelow_lt:
  assumes "valid_draws (draws g)" and "0 < n" and "randbelow n g = (k, g')"
  shows "k < n"
proof -
  have u: "0 \<le> shd (draws g)" "shd (draws g) < 1"
    using valid_draws_shd [OF assms(1)] by simp_all
  have k: "k = nat \<lfloor>shd (draws g) * real n\<rfloor>"
    using assms(3) by (simp add: randbelow_def random_def)
  have "shd (draws g) * real n < 1 * real n"
    using u(2) assms(2) by (intro mult_strict_right_mono) simp_all
  then have "\<lfloor>shd (draws g) * real n\<rfloor> < int n"
    by (simp add: floor_less_iff)
  moreover have "0 \<le> \<lfloor>shd (draws g) * real n\<rfloor>"
    using u(1) by simp
  ultimately have "nat \<lfloor>shd (draws g) * real n\<rfloor> < n"
    by (simp add: nat_less_iff)
  then show ?thesis
    by (simp add: k)
qed

text \<open>
  The two branches on a card that has no transaction yet. The normal branch divides by
  the average delay; the fraud branch skips the velocity block and divides by nothing
  but the divisor of the longitude radius.
\<close>

lemma normal_path_returns:
  assumes "AVG_TRANSACTION_DELAY_SECONDS cfg \<noteq> 0"
  shows "\<exists>res g'. normal_path cfg c now g = (Inr res, g')"
  using assms
  by (simp add: normal_path_def uniform_eq generate_location_around_eq py_div_def
      expovariate_def random_def Let_def)

lemma fraud_path_fresh_returns:
  assumes "LastTxTimestamp c = None"
  shows "\<exists>res g'. fraud_path cfg c now g = (Inr res, g')"
  using assms
  by (simp add: fraud_path_def uniform_eq generate_location_around_eq velocity_block_fresh
      Let_def)

lemma first_step_emits:
  assumes ne: "cards_data st \<noteq> []"
    and v: "valid_draws (draws (rng st))"
    and fresh: "\<forall>c \<in> set (cards_data st). LastTxTimestamp c = None"
    and A: "AVG_TRANSACTION_DELAY_SECONDS cfg \<noteq> 0"
  shows "\<exists>st'. transaction_step cfg st = Inr st' \<and>
           length (stdout st') = Suc (length (stdout st))"
proof -
  obtain k g0 where rb: "randbelow (length (cards_data st)) (rng st) = (k, g0)"
    by (cases "randbelow (length (cards_data st)) (rng st)")
  have k: "k < length (cards_data st)"
    using v _ rb by (rule randbelow_lt) (simp add: ne)
  let ?c = "cards_data st ! k"
  have "?c \<in> set (cards_data st)"
    using k by simp
  with fresh have fr: "LastTxTimestamp ?c = None"
    by simp
  obtain f g1 where fd: "fraud_decision cfg ?c g0 = (f, g1)"
    by (cases "fraud_decision cfg ?c g0")
  obtain res g2 where path: "(if f then fraud_path cfg ?c (current_time st) g1
      else normal_path cfg ?c (current_time st) g1) = (Inr res, g2)"
    using fraud_path_fresh_returns [OF fr, of cfg "current_time st" g1]
      normal_path_returns [OF A, of ?c "current_time st" g1]
    by (cases f) auto
  have step: "transaction_step cfg st = Inr (emit_and_update st cfg k f res g2)"
    using ne rb k fd path by (simp add: transaction_step_def)
  obtain a la lo now where res: "res = (a, la, lo, now)"
    by (cases res)
  have "length (stdout (emit_and_update st cfg k f res g2)) = Suc (length (stdout st))"
    unfolding res by (simp add: emit_and_update_fields)
  with step show ?thesis
    by simp
qed

text \<open>What was printed stays printed.\<close>

lemma transaction_step_stdout:
  "transaction_step cfg st = Inr st' \<Longrightarrow> length (stdout st') = Suc (length (stdout st))"
proof -
  assume "transaction_step cfg st = Inr st'"
  from transaction_step_InrD [OF this] obtain k f res g2 where
    st': "st' = emit_and_update st cfg k f res g2"
    by blast
  obtain a la lo now where res: "res = (a, la, lo, now)"
    by (cases res)
  show ?thesis
    unfolding st' res by (simp add: emit_and_update_fields)
qed

lemma run_loop_stdout:
  "run_loop cfg n st = (st', e) \<Longrightarrow> length (stdout st) \<le> length (stdout st')"
proof (induction n arbitrary: st)
  case 0
  then show ?case by simp
next
  case (Suc n)
  show ?case
  proof (cases "transaction_step cfg st")
    case (Inl x)
    with Suc.prems show ?thesis by simp
  next
    case (Inr st1)
    with Suc.prems have "run_loop cfg n st1 = (st', e)"
      by simp
    from Suc.IH [OF this] transaction_step_stdout [OF Inr] show ?thesis
      by simp
  qed
qed

lemma init_cards_length: "init_cards cfg n g = (cs, g') \<Longrightarrow> length cs = n"
proof (induction n arbitrary: g cs g')
  case 0
  then show ?case by simp
next
  case (Suc n)
  obtain c g1 where c: "new_card cfg g = (c, g1)" by (cases "new_card cfg g")
  obtain cs1 g2 where cs1: "init_cards cfg n g1 = (cs1, g2)" by (cases "init_cards cfg n g1")
  from Suc.IH [OF cs1] Suc.prems c cs1 show ?case by auto
qed

lemma first_record_emitted:
  assumes "0 < NUM_CARDS cfg" and "0 < NUM_TRANSACTIONS cfg"
    and "AVG_TRANSACTION_DELAY_SECONDS cfg \<noteq> 0" and "valid_draws (draws g)"
  shows "stdout (fst (simulate cfg g start ids)) \<noteq> []"
proof -
  obtain cs g1 where i: "init_cards cfg (nat (NUM_CARDS cfg)) g = (cs, g1)"
    by (cases "init_cards cfg (nat (NUM_CARDS cfg)) g")
  let ?st0 = "\<lparr> cards_data = cs, current_time = start, rng = g1, uuids = ids, stdout = [] \<rparr>"
  have "length cs = nat (NUM_CARDS cfg)"
    using i by (rule init_cards_length)
  then have ne: "cards_data ?st0 \<noteq> []"
    using assms(1) by auto
  from init_cards_ok [OF assms(4) i] have v: "valid_draws (draws (rng ?st0))"
    using advanced_valid assms(4) by auto
  have fresh: "\<forall>c \<in> set (cards_data ?st0). LastTxTimestamp c = None"
    using init_cards_fresh [OF i] by simp
  from first_step_emits [OF ne v fresh assms(3)] obtain st1 where
    s: "transaction_step cfg ?st0 = Inr st1" "length (stdout st1) = Suc 0"
    by auto
  from assms(2) obtain n where n: "nat (NUM_TRANSACTIONS cfg) = Suc n"
    by (cases "nat (NUM_TRANSACTIONS cfg)") auto
  obtain st' e where r: "run_loop cfg n st1 = (st', e)"
    by (cases "run_loop cfg n st1")
  from run_loop_stdout [OF r] s(2) have "stdout st' \<noteq> []"
    by auto
  moreover have "simulate cfg g start ids = (st', e)"
    unfolding simulate_def i n by (simp add: s(1) r)
  ultimately show ?thesis
    by simp
qed

text \<open>
  Claim C9, amended. Nothing is validated, before the loop or in it. An empty population
  (\<open>NUM_CARDS \<le> 0\<close>) stops the run at the first card selection of the loop, with
  \<open>IndexError\<close> and nothing printed, when at least one transaction is asked for. With
  at least one card, the default average delay and draws in \<open>[0, 1)\<close>, the loop starts
  and prints its first record, whatever the probabilities, the amount ranges and the
  radii are. (Nothing is said of the records after the first: with other constants than
  the default ones a later transaction can raise.)
\<close>

theorem configuration_not_validated:
  "(NUM_CARDS cfg \<le> 0 \<and> 0 < NUM_TRANSACTIONS cfg \<longrightarrow>
      snd (simulate cfg g start ids) = Some IndexError \<and>
      stdout (fst (simulate cfg g start ids)) = []) \<and>
   (0 < NUM_CARDS cfg \<and> 0 < NUM_TRANSACTIONS cfg \<and>
    AVG_TRANSACTION_DELAY_SECONDS cfg = AVG_TRANSACTION_DELAY_SECONDS default_config \<and>
    valid_draws (draws g) \<longrightarrow>
      stdout (fst (simulate cfg g start ids)) \<noteq> [])"
proof -
  have "AVG_TRANSACTION_DELAY_SECONDS default_config \<noteq> 0"
    by (simp add: default_config_def)
  then show ?thesis
    using empty_population_fails [of cfg g start ids] first_record_emitted [of cfg g start ids]
    by simp
qed

theorem configuration_not_validated_witness:
  "NUM_CARDS (default_config\<lparr> NUM_CARDS := 0 \<rparr>) \<le> 0 \<and>
   0 < NUM_TRANSACTIONS (default_config\<lparr> NUM_CARDS := 0 \<rparr>) \<and>
   snd (simulate (default_config\<lparr> NUM_CARDS := 0 \<rparr>) (rng_of (sconst 0)) 0 (sconst 0))
     = Some IndexError \<and>
   stdout (fst (simulate (default_config\<lparr> NUM_CARDS := 0 \<rparr>) (rng_of (sconst 0)) 0 (sconst 0)))
     = [] \<and>
   0 < NUM_CARDS cfg_invalid \<and> 0 < NUM_TRANSACTIONS cfg_invalid \<and>
   AVG_TRANSACTION_DELAY_SECONDS cfg_invalid = AVG_TRANSACTION_DELAY_SECONDS default_config \<and>
   valid_draws (draws (rng_of (sconst 0))) \<and>
   stdout (fst (simulate cfg_invalid (rng_of (sconst 0)) 0 (sconst 0))) \<noteq> []"
proof -
  let ?e = "default_config\<lparr> NUM_CARDS := 0 \<rparr>"
  have a: "NUM_CARDS ?e \<le> 0" and b: "0 < NUM_TRANSACTIONS ?e"
    by (simp_all add: default_config_def)
  have c: "0 < NUM_CARDS cfg_invalid" and d: "0 < NUM_TRANSACTIONS cfg_invalid"
    and e: "AVG_TRANSACTION_DELAY_SECONDS cfg_invalid
      = AVG_TRANSACTION_DELAY_SECONDS default_config"
    by (simp_all add: cfg_invalid_def cfg_one_def default_config_def)
  have v: "valid_draws (draws (rng_of (sconst 0)))"
    by (simp add: rng_of_simps valid_draws_sconst)
  note t1 = configuration_not_validated [of ?e "rng_of (sconst 0)" 0 "sconst 0"]
  note t2 = configuration_not_validated [of cfg_invalid "rng_of (sconst 0)" 0 "sconst 0"]
  have "NUM_CARDS ?e \<le> 0 \<and> 0 < NUM_TRANSACTIONS ?e \<longrightarrow>
      snd (simulate ?e (rng_of (sconst 0)) 0 (sconst 0)) = Some IndexError \<and>
      stdout (fst (simulate ?e (rng_of (sconst 0)) 0 (sconst 0))) = []"
    using t1 by (rule conjunct1)
  then have r1: "snd (simulate ?e (rng_of (sconst 0)) 0 (sconst 0)) = Some IndexError \<and>
      stdout (fst (simulate ?e (rng_of (sconst 0)) 0 (sconst 0))) = []"
    using conjI [OF a b] by (rule mp)
  have "0 < NUM_CARDS cfg_invalid \<and> 0 < NUM_TRANSACTIONS cfg_invalid \<and>
      AVG_TRANSACTION_DELAY_SECONDS cfg_invalid = AVG_TRANSACTION_DELAY_SECONDS default_config \<and>
      valid_draws (draws (rng_of (sconst 0))) \<longrightarrow>
      stdout (fst (simulate cfg_invalid (rng_of (sconst 0)) 0 (sconst 0))) \<noteq> []"
    using t2 by (rule conjunct2)
  then have r2: "stdout (fst (simulate cfg_invalid (rng_of (sconst 0)) 0 (sconst 0))) \<noteq> []"
    using conjI [OF c conjI [OF d conjI [OF e v]]] by (rule mp)
  from r1 have r1a: "snd (simulate ?e (rng_of (sconst 0)) 0 (sconst 0)) = Some IndexError"
    and r1b: "stdout (fst (simulate ?e (rng_of (sconst 0)) 0 (sconst 0))) = []"
    by (rule conjunct1, rule conjunct2)
  show ?thesis
    by (intro conjI a b r1a r1b c d e v r2)
qed

subsection \<open>The divisor of the longitude radius\<close>

lemma sin_radians_90: "sin (radians 90) = 1"
  by (simp add: radians_def)

lemma cos_degrees_90: "cos_degrees 90 = 6123233995736766 / 10 ^ 32"
  by (simp add: cos_degrees_def cos_radians_90 sin_radians_90 pi_rounding_def)

lemma cos_near_pole:
  "0 < cos (radians (899999 / 10000)) \<and> (1111 / 10) * cos (radians (899999 / 10000)) < 1 / 5000"
proof -
  have p: "0 < cos (radians (899999 / 10000))"
    by (rule cos_radians_pos) simp_all
  have "radians (899999 / 10000) = pi / 2 - radians (1 / 10000)"
    by (simp add: radians_def)
  then have "cos (radians (899999 / 10000)) = sin (radians (1 / 10000))"
    by (simp add: cos_diff)
  also have "\<dots> \<le> radians (1 / 10000)"
    by (rule sin_x_le_x) (simp add: radians_def)
  also have "\<dots> \<le> (1 / 10000) * (63 / 20) / 180"
    using pi_le_315 by (simp add: radians_def)
  finally have "cos (radians (899999 / 10000)) \<le> (1 / 10000) * (63 / 20) / 180" .
  then have "(1111 / 10) * cos (radians (899999 / 10000)) < 1 / 5000"
    by simp
  with p show ?thesis by simp
qed

lemma cos_degrees_near_pole:
  "0 < (1111 / 10) * cos_degrees (899999 / 10000) \<and>
   (1111 / 10) * cos_degrees (899999 / 10000) < 1 / 5000"
proof -
  from cos_near_pole have "cos (radians (899999 / 10000)) \<noteq> 0"
    by simp
  then have "cos_degrees (899999 / 10000) = cos (radians (899999 / 10000))"
    by (rule cos_degrees_eq)
  with cos_near_pole show ?thesis
    by simp
qed

lemma cos_degrees_pos:
  assumes "- 90 \<le> lat" and "lat \<le> 90"
  shows "0 < cos_degrees lat"
proof (cases "cos (radians lat) = 0")
  case True
  have "\<not> (- 90 < lat \<and> lat < 90)"
    using True cos_radians_pos [of lat] by auto
  with assms have "lat = 90 \<or> lat = - 90"
    by auto
  then show ?thesis
  proof
    assume "lat = 90"
    then show ?thesis by (simp add: cos_degrees_90)
  next
    assume l: "lat = - 90"
    have "radians (- 90) = - radians 90"
      by (simp add: radians_def)
    then have "cos (radians (- 90)) = 0" "sin (radians (- 90)) = - 1"
      by (simp_all add: cos_radians_90 sin_radians_90)
    then show ?thesis
      unfolding l by (simp add: cos_degrees_def pi_rounding_def)
  qed
next
  case False
  have "\<not> (lat = 90 \<or> lat = - 90)"
  proof
    assume "lat = 90 \<or> lat = - 90"
    then have "cos (radians lat) = 0"
      using cos_radians_90 by (auto simp: radians_def)
    with False show False by simp
  qed
  with assms have "- 90 < lat" "lat < 90"
    by auto
  then have "0 < cos (radians lat)"
    by (rule cos_radians_pos)
  with False show ?thesis
    by (simp add: cos_degrees_eq)
qed

lemma pole_location:
  "generate_location_around 90 0 50 (rng_of (0 ## (1 / 2 + 55 / 2 ^ 53) ## sconst 0)) =
     (Inr (89549955 / 1000000,
           py_round (py_mod (0 + (- (50 / ((1111 / 10) * (6123233995736766 / 10 ^ 32)))
              + (50 / ((1111 / 10) * (6123233995736766 / 10 ^ 32))
                  - - (50 / ((1111 / 10) * (6123233995736766 / 10 ^ 32))))
                * (1 / 2 + 55 / 2 ^ 53)) + 180) 360 - 180) 6),
      rng_of (sconst 0))"
  unfolding generate_location_around_eq cos_degrees_90
  by (simp add: rng_of_def py_round_def round_half_even_def)

text \<open>
  Claim C6, as the code has it. The divisor \<open>111.1 * cos(radians(lat))\<close> is used as it
  is computed; nothing clamps it. At latitude 90 it is about \<open>6.8e-15\<close>, so a distance of
  50 km becomes a longitude radius of about \<open>7.3e15\<close> degrees: with a first draw of 0 and
  a second draw \<open>55 / 2^53\<close> above \<open>1/2\<close> the sampler returns the latitude 89.549955 and a
  longitude between 80 and 100 degrees away from the one it was given. A ten-thousandth
  of a degree from the pole the divisor is below 0.0002.
\<close>

theorem divisor_at_the_pole:
  "\<exists>la lo g'.
      generate_location_around 90 0 50 (rng_of (0 ## (1 / 2 + 55 / 2 ^ 53) ## sconst 0))
        = (Inr (la, lo), g') \<and>
      la = 89549955 / 1000000 \<and> 80 \<le> lo \<and> lo \<le> 100 \<and>
      0 < (1111 / 10) * cos_degrees 90 \<and> (1111 / 10) * cos_degrees 90 < 1 / 10 ^ 14 \<and>
      0 < (1111 / 10) * cos_degrees (899999 / 10000) \<and>
      (1111 / 10) * cos_degrees (899999 / 10000) < 1 / 5000"
proof -
  let ?x = "0 + (- (50 / ((1111 / 10) * (6123233995736766 / 10 ^ 32)))
              + (50 / ((1111 / 10) * (6123233995736766 / 10 ^ 32))
                  - - (50 / ((1111 / 10) * (6123233995736766 / 10 ^ 32))))
                * (1 / 2 + 55 / 2 ^ 53)) + 180 :: real"
  have x: "0 \<le> ?x" "?x < 360" "of_int 260 \<le> ?x" "?x \<le> of_int 280"
    by simp_all
  have m: "py_mod ?x 360 = ?x"
    using x(1,2) by (rule py_mod_id)
  have b: "of_int 80 \<le> ?x - 180" "?x - 180 \<le> of_int 100"
    using x(3,4) by simp_all
  have "of_int 80 \<le> py_round (?x - 180) 6" "py_round (?x - 180) 6 \<le> of_int 100"
    by (rule py_round_6_ge [OF b(1)], rule py_round_6_le [OF b(2)])
  then have lo: "80 \<le> py_round (py_mod ?x 360 - 180) 6" "py_round (py_mod ?x 360 - 180) 6 \<le> 100"
    unfolding m by simp_all
  have d: "0 < (1111 / 10) * cos_degrees 90" "(1111 / 10) * cos_degrees 90 < 1 / 10 ^ 14"
    by (simp_all add: cos_degrees_90)
  from cos_degrees_near_pole have n: "0 < (1111 / 10) * cos_degrees (899999 / 10000)"
    "(1111 / 10) * cos_degrees (899999 / 10000) < 1 / 5000"
    by simp_all
  have e: "generate_location_around 90 0 50 (rng_of (0 ## (1 / 2 + 55 / 2 ^ 53) ## sconst 0))
      = (Inr (89549955 / 1000000, py_round (py_mod ?x 360 - 180) 6), rng_of (sconst 0))"
    by (rule pole_location)
  show ?thesis
    by (intro exI [of _ "89549955 / 1000000"] exI [of _ "py_round (py_mod ?x 360 - 180) 6"]
        exI [of _ "rng_of (sconst 0)"] conjI e refl lo d n)
qed

text \<open>
  Claim C6, amended. The divisor is not guarded: for every latitude the sampler returns
  the longitude it gets from the radius \<open>d / (111.1 * cos(radians(lat)))\<close> itself, an
  offset of \<open>(2u - 1)\<close> times that radius for the draw \<open>u\<close>. No division fault arises
  all the same: the cosine of \<open>radians(lat)\<close> is never zero on doubles, so the divisor
  is never zero and the sampler returns a location for every latitude. For every latitude
  in \<open>[-90, 90]\<close>, both ends included, the divisor is positive.
\<close>

theorem longitude_radius_unguarded:
  "(\<exists>la g'. generate_location_around lat lon d g =
      (Inr (la, py_round (py_mod (lon + (2 * shd (stl (draws g)) - 1)
                * (d / ((1111 / 10) * cos_degrees lat)) + 180) 360 - 180) 6), g')) \<and>
   (1111 / 10) * cos_degrees lat \<noteq> 0 \<and>
   (- 90 \<le> lat \<and> lat \<le> 90 \<longrightarrow> 0 < (1111 / 10) * cos_degrees lat)"
proof -
  define r where "r = d / ((1111 / 10) * cos_degrees lat)"
  have "lon + (- r + (r - - r) * shd (stl (draws g))) + 180
      = lon + (2 * shd (stl (draws g)) - 1) * r + 180"
    by (simp add: algebra_simps)
  then have "\<exists>la g'. generate_location_around lat lon d g =
      (Inr (la, py_round (py_mod (lon + (2 * shd (stl (draws g)) - 1) * r + 180) 360 - 180) 6), g')"
    unfolding generate_location_around_eq r_def [symmetric] by simp
  then show ?thesis
    unfolding r_def using cos_degrees_pos [of lat] by (simp add: cos_degrees_nonzero)
qed

theorem longitude_radius_unguarded_witness:
  "(\<exists>la g'. generate_location_around 90 10 50 (rng_of (sconst 0)) =
      (Inr (la, py_round (py_mod (10 + (2 * shd (stl (draws (rng_of (sconst 0)))) - 1)
                * (50 / ((1111 / 10) * cos_degrees 90)) + 180) 360 - 180) 6), g')) \<and>
   (1111 / 10) * cos_degrees 90 \<noteq> 0 \<and>
   - 90 \<le> (90::real) \<and> (90::real) \<le> 90 \<and> 0 < (1111 / 10) * cos_degrees 90"
proof -
  note t = longitude_radius_unguarded [of 90 10 50 "rng_of (sconst 0)"]
  have c1: "- 90 \<le> (90::real)" and c2: "(90::real) \<le> 90"
    by simp_all
  have r1: "\<exists>la g'. generate_location_around 90 10 50 (rng_of (sconst 0)) =
      (Inr (la, py_round (py_mod (10 + (2 * shd (stl (draws (rng_of (sconst 0)))) - 1)
                * (50 / ((1111 / 10) * cos_degrees 90)) + 180) 360 - 180) 6), g')"
    using t by (rule conjunct1)
  have r2: "(1111 / 10) * cos_degrees 90 \<noteq> 0"
    using t by (rule conjunct1 [OF conjunct2])
  have "- 90 \<le> (90::real) \<and> (90::real) \<le> 90 \<longrightarrow> 0 < (1111 / 10) * cos_degrees 90"
    using t by (rule conjunct2 [OF conjunct2])
  then have r3: "0 < (1111 / 10) * cos_degrees 90"
    using conjI [OF c1 c2] by (rule mp)
  show ?thesis
    by (intro conjI r1 r2 c1 c2 r3)
qed

subsection \<open>The square roots of the distance\<close>

lemma haversine_a_range:
  "0 \<le> haversine_a lat1 lon1 lat2 lon2 \<and> haversine_a lat1 lon1 lat2 lon2 \<le> 1"
proof -
  define p where "p = radians lat1"
  define q where "q = radians lat2"
  define s where "s = (sin (radians (lon2 - lon1) / 2))\<^sup>2"
  define c where "c = cos (q - p)"
  define e where "e = cos (p + q)"
  have s: "0 \<le> s" "s \<le> 1"
    unfolding s_def using abs_sin_le_one [of "radians (lon2 - lon1) / 2"]
    by (simp_all add: abs_square_le_1)
  have c: "- 1 \<le> c" "c \<le> 1" and e: "- 1 \<le> e" "e \<le> 1"
    unfolding c_def e_def by simp_all
  have "2 * ((q - p) / 2) = q - p"
    by simp
  then have "cos (q - p) = 1 - 2 * (sin ((q - p) / 2))\<^sup>2"
    using cos_double_sin [of "(q - p) / 2"] by (simp only:)
  then have h: "(sin ((q - p) / 2))\<^sup>2 = (1 - c) / 2"
    by (simp add: c_def)
  have "cos p * cos q = (cos (p - q) + cos (p + q)) / 2"
    by (rule cos_times_cos)
  moreover have "cos (p - q) = cos (q - p)"
    using cos_minus [of "q - p"] by simp
  ultimately have cc: "cos p * cos q = (c + e) / 2"
    by (simp add: c_def e_def)
  have a: "haversine_a lat1 lon1 lat2 lon2 = (1 - c) / 2 + (c + e) / 2 * s"
    unfolding haversine_a_def radians_diff [of lat2 lat1] p_def [symmetric] q_def [symmetric]
      s_def [symmetric] h cc ..
  have lo: "(1 - c) / 2 + (c + e) / 2 * s = ((1 - c) * (1 - s) + s * (1 + e)) / 2"
    by (simp add: field_simps)
  have hi: "1 - ((1 - c) / 2 + (c + e) / 2 * s) = ((1 + c) * (1 - s) + s * (1 - e)) / 2"
    by (simp add: field_simps)
  have n: "0 \<le> (1 - c) * (1 - s)" "0 \<le> s * (1 + e)"
    "0 \<le> (1 + c) * (1 - s)" "0 \<le> s * (1 - e)"
    using s c e by (intro mult_nonneg_nonneg; simp)+
  have p1: "0 \<le> (1 - c) * (1 - s) + s * (1 + e)"
    using n(1) n(2) by (rule add_nonneg_nonneg)
  have p2: "0 \<le> (1 + c) * (1 - s) + s * (1 - e)"
    using n(3) n(4) by (rule add_nonneg_nonneg)
  have g1: "0 \<le> (1 - c) / 2 + (c + e) / 2 * s"
    unfolding lo using p1 by simp
  have g2: "0 \<le> 1 - ((1 - c) / 2 + (c + e) / 2 * s)"
    unfolding hi using p2 by simp
  from g1 g2 show ?thesis
    unfolding a by simp
qed

lemma haversine_nonneg: "0 \<le> haversine lat1 lon1 lat2 lon2"
proof -
  define a where "a = haversine_a lat1 lon1 lat2 lon2"
  have a: "0 \<le> a" "a \<le> 1"
    using haversine_a_range [of lat1 lon1 lat2 lon2] by (simp_all add: a_def)
  have "0 \<le> atan2 (sqrt a) (sqrt (1 - a))"
    using a by (simp add: atan2_def)
  then show ?thesis
    unfolding haversine_eq a_def [symmetric] by simp
qed

end
